theory Spec2Isabelle
  imports Main "HOL-Library.Sublist" "HOL-Library.Multiset"
begin

section \<open>JavaScript strings\<close>

text \<open>
  A JavaScript string is a sequence of UTF-16 code units. The scripts test code units
  outside ASCII (the white space that \<^verbatim>\<open>trim\<close> and \<^verbatim>\<open>\s\<close> accept, the line
  terminators that \<^verbatim>\<open>.\<close> refuses) and return Korean phrases, so a string is modelled
  as the list of its code units. \<open>js\<close> turns an ASCII literal into such a list.
\<close>

type_synonym jsstring = "nat list"

definition js :: "string \<Rightarrow> jsstring" where
  "js s = map of_char s"

definition DQUOTE :: nat where "DQUOTE = 34"
definition SQUOTE :: nat where "SQUOTE = 39"
definition NL :: nat where "NL = 10"
definition CR :: nat where "CR = 13"

text \<open>
  The code units matched by \<^verbatim>\<open>\s\<close> and removed by \<^verbatim>\<open>String.prototype.trim\<close>
  (ECMAScript WhiteSpace and LineTerminator): TAB, LF, VT, FF, CR, SP, NBSP, U+1680,
  U+2000 to U+200A, U+2028, U+2029, U+202F, U+205F, U+3000, U+FEFF.
\<close>

definition isSpace :: "nat \<Rightarrow> bool" where
  "isSpace c = (c = 9 \<or> c = 10 \<or> c = 11 \<or> c = 12 \<or> c = 13 \<or> c = 32 \<or> c = 160
     \<or> c = 5760 \<or> (8192 \<le> c \<and> c \<le> 8202) \<or> c = 8232 \<or> c = 8233 \<or> c = 8239
     \<or> c = 8287 \<or> c = 12288 \<or> c = 65279)"

text \<open>The code units that \<^verbatim>\<open>.\<close> does not match: LF, CR, U+2028, U+2029.\<close>

definition isLineTerminator :: "nat \<Rightarrow> bool" where
  "isLineTerminator c = (c = 10 \<or> c = 13 \<or> c = 8232 \<or> c = 8233)"

definition isDigit :: "nat \<Rightarrow> bool" where
  "isDigit c = (48 \<le> c \<and> c \<le> 57)"

definition anyUnit :: "nat \<Rightarrow> bool" where
  "anyUnit c = True"

definition notLineTerminator :: "nat \<Rightarrow> bool" where
  "notLineTerminator c = (\<not> isLineTerminator c)"

definition trim :: "jsstring \<Rightarrow> jsstring" where
  "trim s = rev (dropWhile isSpace (rev (dropWhile isSpace s)))"

definition startsWith :: "jsstring \<Rightarrow> jsstring \<Rightarrow> bool" where
  "startsWith s p = prefix p s"

text \<open>\<^verbatim>\<open>s.split(sep)\<close> for a one-unit separator: the pieces between the separators,
  \<^verbatim>\<open>[""]\<close> for the empty string. \<open>cur\<close> is the piece being read.\<close>

fun splitAcc :: "nat \<Rightarrow> jsstring \<Rightarrow> jsstring \<Rightarrow> jsstring list" where
  "splitAcc sep cur [] = [cur]"
| "splitAcc sep cur (c # cs) =
     (if c = sep then cur # splitAcc sep [] cs else splitAcc sep (cur @ [c]) cs)"

definition split :: "nat \<Rightarrow> jsstring \<Rightarrow> jsstring list" where
  "split sep s = splitAcc sep [] s"

text \<open>\<^verbatim>\<open>xs.join(sep)\<close>.\<close>

fun join :: "jsstring \<Rightarrow> jsstring list \<Rightarrow> jsstring" where
  "join sep [] = []"
| "join sep [x] = x"
| "join sep (x # y # ys) = x @ sep @ join sep (y # ys)"

text \<open>\<^verbatim>\<open>s.indexOf(c)\<close> for one code unit: the first index, or -1.\<close>

fun indexOf :: "nat \<Rightarrow> jsstring \<Rightarrow> int" where
  "indexOf c [] = -1"
| "indexOf c (x # xs) =
     (if x = c then 0 else (let i = indexOf c xs in if i = -1 then -1 else i + 1))"

text \<open>\<^verbatim>\<open>s.slice(i, j)\<close> and \<^verbatim>\<open>s.slice(i)\<close> for indices \<open>0 \<le> i\<close>.\<close>

definition slice :: "jsstring \<Rightarrow> int \<Rightarrow> int \<Rightarrow> jsstring" where
  "slice s i j = take (nat j - nat i) (drop (nat i) s)"

definition sliceFrom :: "jsstring \<Rightarrow> int \<Rightarrow> jsstring" where
  "sliceFrom s i = drop (nat i) s"

section \<open>Regular expressions of the scripts\<close>

text \<open>
  A lazy group followed by a literal, \<^verbatim>\<open>(X*?)d\<close>: the shortest run of units accepted by
  \<open>ok\<close> after which the literal \<open>d\<close> stands. The result is the run and the text after
  \<open>d\<close>; \<open>None\<close> when the regular expression fails from this position.
\<close>

fun lazyUntil :: "(nat \<Rightarrow> bool) \<Rightarrow> jsstring \<Rightarrow> jsstring \<Rightarrow> (jsstring \<times> jsstring) option" where
  "lazyUntil ok d [] = (if d = [] then Some ([], []) else None)"
| "lazyUntil ok d (c # cs) =
     (if prefix d (c # cs) then Some ([], drop (length d) (c # cs))
      else if ok c then
        (case lazyUntil ok d cs of
           None \<Rightarrow> None
         | Some (cap, rest) \<Rightarrow> Some (c # cap, rest))
      else None)"

section \<open>DocumentSplitter: splitFrontMatter\<close>

text \<open>
  \<^verbatim>\<open>text.match(/^---\n([\s\S]*?)\n---\n?/)\<close>: the result is the pair of the whole match
  \<^verbatim>\<open>match[0]\<close> and the group \<^verbatim>\<open>match[1]\<close>. Without the \<^verbatim>\<open>m\<close> flag \<^verbatim>\<open>^\<close> is the start of
  the text; the optional last line feed is greedy.
\<close>

definition matchFrontMatterBlock :: "jsstring \<Rightarrow> (jsstring \<times> jsstring) option" where
  "matchFrontMatterBlock text =
     (if prefix (js ''---\<newline>'') text then
        (case lazyUntil anyUnit (js ''\<newline>---'') (drop 4 text) of
           None \<Rightarrow> None
         | Some (cap, rest) \<Rightarrow>
             Some (js ''---\<newline>'' @ cap @ js ''\<newline>---'' @ (if prefix [NL] rest then [NL] else []),
                   cap))
      else None)"

record splitResult =
  frontmatter :: jsstring
  body :: jsstring

definition splitFrontMatter :: "jsstring \<Rightarrow> splitResult" where
  "splitFrontMatter text =
     (case matchFrontMatterBlock text of
        None \<Rightarrow> \<lparr>frontmatter = [], body = text\<rparr>
      | Some (whole, group1) \<Rightarrow>
          \<lparr>frontmatter = group1, body = sliceFrom text (int (length whole))\<rparr>)"

text \<open>The first line of a text: the units before the first line feed.\<close>

definition firstLine :: "jsstring \<Rightarrow> jsstring" where
  "firstLine text = takeWhile (\<lambda>c. c \<noteq> NL) text"

section \<open>MetadataParser: parseFrontMatter\<close>

text \<open>
  Both scripts define \<^verbatim>\<open>parseFrontMatter\<close> and \<^verbatim>\<open>deriveTitleFromFilename\<close>. The
  definitions of \<^verbatim>\<open>reviews-list.js\<close> carry the suffix \<open>_list\<close>, those of the review page
  the suffix \<open>_page\<close>. The callback that \<^verbatim>\<open>reduce\<close> runs on each line is the same in both.
\<close>

type_synonym metadata = "jsstring \<rightharpoonup> jsstring"

definition isQuote :: "nat \<Rightarrow> bool" where
  "isQuote c = (c = SQUOTE \<or> c = DQUOTE)"

text \<open>
  \<^verbatim>\<open>rawValue.replace(/^['"]|['"]$/g, '')\<close>: the first alternative removes a quote at index
  0, the second a quote at the last index of what is left to scan.
\<close>

definition stripQuotes :: "jsstring \<Rightarrow> jsstring" where
  "stripQuotes rawValue =
     (let s1 = (case rawValue of [] \<Rightarrow> [] | c # cs \<Rightarrow> if isQuote c then cs else rawValue)
      in if s1 \<noteq> [] \<and> isQuote (last s1) then butlast s1 else s1)"

text \<open>
  \<^verbatim>\<open>acc[key] = value\<close> on an object made by \<^verbatim>\<open>{}\<close>, with a string value: the key
  \<^verbatim>\<open>__proto__\<close> reaches the setter of \<^verbatim>\<open>Object.prototype\<close>, which ignores a value that
  is not an object, so nothing is stored.
\<close>

definition setProperty :: "metadata \<Rightarrow> jsstring \<Rightarrow> jsstring \<Rightarrow> metadata" where
  "setProperty acc key v = (if key = js ''__proto__'' then acc else acc(key \<mapsto> v))"

definition frontMatterLine :: "metadata \<Rightarrow> jsstring \<Rightarrow> metadata" where
  "frontMatterLine acc line =
     (let separatorIndex = indexOf 58 line in
      if separatorIndex = -1 then acc
      else
        let key = trim (slice line 0 separatorIndex) in
        if key = [] then acc
        else
          let rawValue = trim (sliceFrom line (separatorIndex + 1));
              v = stripQuotes rawValue
          in setProperty acc key v)"

definition parseFrontMatter_page :: "jsstring \<Rightarrow> metadata" where
  "parseFrontMatter_page block =
     (if block = [] then Map.empty
      else foldl frontMatterLine Map.empty (split NL block))"

text \<open>\<^verbatim>\<open>text.match(/^---\n([\s\S]*?)\n---/)\<close> of the list script: no optional line feed.\<close>

definition matchFrontMatter_list :: "jsstring \<Rightarrow> (jsstring \<times> jsstring) option" where
  "matchFrontMatter_list text =
     (if prefix (js ''---\<newline>'') text then
        (case lazyUntil anyUnit (js ''\<newline>---'') (drop 4 text) of
           None \<Rightarrow> None
         | Some (cap, rest) \<Rightarrow> Some (js ''---\<newline>'' @ cap @ js ''\<newline>---'', cap))
      else None)"

definition parseFrontMatter_list :: "jsstring \<Rightarrow> metadata" where
  "parseFrontMatter_list text =
     (case matchFrontMatter_list text of
        None \<Rightarrow> Map.empty
      | Some (whole, group1) \<Rightarrow> foldl frontMatterLine Map.empty (split NL group1))"

section \<open>FilenameInference: deriveTitleFromFilename\<close>

text \<open>\<^verbatim>\<open>a || b\<close> on strings: the empty string is the only falsy one.\<close>

definition orElse :: "jsstring \<Rightarrow> jsstring \<Rightarrow> jsstring" where
  "orElse a b = (if a = [] then b else a)"

text \<open>\<^verbatim>\<open>filename.replace(/\.md$/i, '')\<close>.\<close>

definition stripMd :: "jsstring \<Rightarrow> jsstring" where
  "stripMd filename =
     (case rev filename of
        d # m # p # r \<Rightarrow>
          if p = 46 \<and> (m = 109 \<or> m = 77) \<and> (d = 100 \<or> d = 68) then rev r else filename
      | _ \<Rightarrow> filename)"

text \<open>\<^verbatim>\<open>\d{4}-\d{2}-\d{2}\<close> on exactly ten units.\<close>

definition isDashedDate :: "jsstring \<Rightarrow> bool" where
  "isDashedDate d =
     (length d = 10 \<and> list_all isDigit (take 4 d) \<and> take 1 (drop 4 d) = [45]
      \<and> list_all isDigit (take 2 (drop 5 d)) \<and> take 1 (drop 7 d) = [45]
      \<and> list_all isDigit (drop 8 d))"

text \<open>
  \<^verbatim>\<open>base.match(/^\d{4}-\d{2}-\d{2}[-_](.+)$/)\<close>: the group \<^verbatim>\<open>match[1]\<close>. The group is
  greedy and must reach the end of the text, so it is everything after the separator,
  not empty and free of line terminators.
\<close>

definition matchDatedName :: "jsstring \<Rightarrow> jsstring option" where
  "matchDatedName base =
     (let rest = drop 11 base in
      if isDashedDate (take 10 base)
         \<and> (take 1 (drop 10 base) = [45] \<or> take 1 (drop 10 base) = [95])
         \<and> rest \<noteq> [] \<and> list_all notLineTerminator rest
      then Some rest else None)"

definition deriveTitleFromFilename_list :: "jsstring \<Rightarrow> jsstring" where
  "deriveTitleFromFilename_list filename =
     (let base = stripMd filename in
      case matchDatedName base of
        Some group1 \<Rightarrow> group1
      | None \<Rightarrow> orElse (join [95] (drop 1 (split 95 base))) base)"

definition deriveTitleFromFilename_page :: "jsstring \<Rightarrow> jsstring" where
  "deriveTitleFromFilename_page filename =
     orElse (join [95] (drop 1 (split 95 (stripMd filename)))) filename"

section \<open>MarkdownRenderer: markdownToHtml\<close>

text \<open>\<^verbatim>\<open>str.replace(/c/g, r)\<close> for one code unit \<open>c\<close>.\<close>

definition replaceUnit :: "nat \<Rightarrow> jsstring \<Rightarrow> jsstring \<Rightarrow> jsstring" where
  "replaceUnit c r str = concat (map (\<lambda>x. if x = c then r else [x]) str)"

definition escapeHtml :: "jsstring \<Rightarrow> jsstring" where
  "escapeHtml str =
     replaceUnit 62 (js ''&gt;'') (replaceUnit 60 (js ''&lt;'') (replaceUnit 38 (js ''&amp;'') str))"

text \<open>
  One match of \<^verbatim>\<open>d(.+?)d\<close> at the start of \<open>s\<close>, for a literal delimiter \<open>d\<close>: the
  group takes one unit that is no line terminator, then as few more as possible. The
  result is the group and the text after the closing delimiter.
\<close>

definition matchDelimited :: "jsstring \<Rightarrow> jsstring \<Rightarrow> (jsstring \<times> jsstring) option" where
  "matchDelimited d s =
     (if prefix d s then
        (case drop (length d) s of
           [] \<Rightarrow> None
         | c # cs \<Rightarrow>
             if isLineTerminator c then None
             else (case lazyUntil notLineTerminator d cs of
                     None \<Rightarrow> None
                   | Some (cap, rest) \<Rightarrow> Some (c # cap, rest)))
      else None)"

text \<open>
  \<^verbatim>\<open>result.replace(/d(.+?)d/g, 'opn$1cls')\<close>: the matches are taken from left to right,
  each search starting where the last match ended.
\<close>

function replaceDelimited :: "jsstring \<Rightarrow> jsstring \<Rightarrow> jsstring \<Rightarrow> jsstring \<Rightarrow> jsstring" where
  "replaceDelimited d opn cls [] = []"
| "replaceDelimited d opn cls (c # cs) =
     (case matchDelimited d (c # cs) of
        Some (cap, rest) \<Rightarrow> opn @ cap @ cls @ replaceDelimited d opn cls rest
      | None \<Rightarrow> c # replaceDelimited d opn cls cs)"
  by pat_completeness auto
termination
proof -
  have lazy: "length rest \<le> length s" if "lazyUntil ok d s = Some (cap, rest)"
    for ok d s cap rest
    using that
  proof (induction s arbitrary: cap)
    case Nil
    then show ?case by (simp split: if_splits)
  next
    case (Cons x xs)
    then show ?case by (fastforce split: if_splits option.splits)
  qed
  have shorter: "length rest < length s" if "matchDelimited d s = Some (cap, rest)"
    for d s cap rest
  proof -
    from that obtain c cs cap' where
      "drop (length d) s = c # cs" "lazyUntil notLineTerminator d cs = Some (cap', rest)"
      by (auto simp: matchDelimited_def split: if_splits list.splits option.splits)
    with lazy [of notLineTerminator d cs cap' rest]
    have "length rest \<le> length cs" "length (drop (length d) s) = Suc (length cs)"
      by simp_all
    then show ?thesis by simp
  qed
  show ?thesis
    by (relation "measure (\<lambda>(d, opn, cls, s). length s)") (auto dest: shorter)
qed

text \<open>
  One match of \<^verbatim>\<open>`([^`]+)`\<close> at the start of \<open>s\<close>: the group is the longest run of
  units other than the backtick, and a backtick must close it.
\<close>

definition matchCode :: "jsstring \<Rightarrow> (jsstring \<times> jsstring) option" where
  "matchCode s =
     (case s of
        [] \<Rightarrow> None
      | c # cs \<Rightarrow>
          if c = 96 then
            (let cap = takeWhile (\<lambda>x. x \<noteq> 96) cs; rest = dropWhile (\<lambda>x. x \<noteq> 96) cs
             in if cap \<noteq> [] \<and> rest \<noteq> [] then Some (cap, drop 1 rest) else None)
          else None)"

function replaceCode :: "jsstring \<Rightarrow> jsstring" where
  "replaceCode [] = []"
| "replaceCode (c # cs) =
     (case matchCode (c # cs) of
        Some (cap, rest) \<Rightarrow> js ''<code>'' @ cap @ js ''</code>'' @ replaceCode rest
      | None \<Rightarrow> c # replaceCode cs)"
  by pat_completeness auto
termination
proof -
  have shorter: "length rest < length s" if "matchCode s = Some (cap, rest)" for s cap rest
  proof -
    from that obtain cs where "s = 96 # cs" "rest = drop 1 (dropWhile (\<lambda>x. x \<noteq> 96) cs)"
      by (auto simp: matchCode_def Let_def split: list.splits if_splits)
    moreover have "length (dropWhile (\<lambda>x. x \<noteq> 96) cs) \<le> length cs"
      by (rule length_dropWhile_le)
    ultimately show ?thesis by simp
  qed
  show ?thesis
    by (relation "measure length") (auto dest: shorter)
qed

definition inlineMarkdown :: "jsstring \<Rightarrow> jsstring" where
  "inlineMarkdown text =
     (let result = escapeHtml text;
          result = replaceDelimited (js ''**'') (js ''<strong>'') (js ''</strong>'') result;
          result = replaceDelimited (js ''__'') (js ''<strong>'') (js ''</strong>'') result;
          result = replaceDelimited (js ''*'') (js ''<em>'') (js ''</em>'') result;
          result = replaceDelimited (js ''_'') (js ''<em>'') (js ''</em>'') result;
          result = replaceCode result
      in result)"

text \<open>The decimal digits of a number, as a template literal prints an integer.\<close>

fun decimal :: "nat \<Rightarrow> jsstring" where
  "decimal n = (if n < 10 then [48 + n] else decimal (n div 10) @ [48 + n mod 10])"

definition numToString :: "int \<Rightarrow> jsstring" where
  "numToString n = (if n < 0 then 45 # decimal (nat (- n)) else decimal (nat n))"

record mdState =
  html :: "jsstring list"
  inCode :: bool
  codeLines :: "jsstring list"
  listBuffer :: "jsstring list"

definition flushCode :: "mdState \<Rightarrow> mdState" where
  "flushCode st =
     (if \<not> inCode st then st
      else st\<lparr>html := html st @ [js ''<pre><code>'' @ escapeHtml (join [NL] (codeLines st))
                                    @ js ''</code></pre>''],
              inCode := False, codeLines := []\<rparr>)"

definition flushList :: "mdState \<Rightarrow> mdState" where
  "flushList st =
     (if listBuffer st = [] then st
      else
        let items = concat (map (\<lambda>item. js ''<li>'' @ item @ js ''</li>'') (listBuffer st))
        in st\<lparr>html := html st @ [js ''<ul>'' @ items @ js ''</ul>''], listBuffer := []\<rparr>)"

text \<open>\<^verbatim>\<open>rawLine.replace(/\r$/, '')\<close>.\<close>

definition stripCR :: "jsstring \<Rightarrow> jsstring" where
  "stripCR rawLine = (if rawLine \<noteq> [] \<and> last rawLine = CR then butlast rawLine else rawLine)"

text \<open>
  \<^verbatim>\<open>line.match(/^(#{1,6})\s+(.*)$/)\<close>: the groups 1 and 2. The hashes and the white
  space are greedy, and \<^verbatim>\<open>(.*)$\<close> must reach the end of the line, so there are one to
  six hashes in all, then white space, then a text free of line terminators; giving back
  hashes or white space never helps.
\<close>

definition headingMatch :: "jsstring \<Rightarrow> (jsstring \<times> jsstring) option" where
  "headingMatch line =
     (let hashes = takeWhile (\<lambda>c. c = 35) line;
          after = dropWhile (\<lambda>c. c = 35) line;
          text = dropWhile isSpace after
      in if 1 \<le> length hashes \<and> length hashes \<le> 6 \<and> takeWhile isSpace after \<noteq> []
            \<and> list_all notLineTerminator text
         then Some (hashes, text) else None)"

text \<open>\<^verbatim>\<open>line.match(/^[-*+]\s+(.*)$/)\<close>: the group 1.\<close>

definition listMatch :: "jsstring \<Rightarrow> jsstring option" where
  "listMatch line =
     (case line of
        [] \<Rightarrow> None
      | c # after \<Rightarrow>
          let text = dropWhile isSpace after
          in if (c = 45 \<or> c = 42 \<or> c = 43) \<and> takeWhile isSpace after \<noteq> []
                \<and> list_all notLineTerminator text
             then Some text else None)"

text \<open>\<^verbatim>\<open>line.replace(/^>\s?/, '')\<close>.\<close>

definition stripQuoteMark :: "jsstring \<Rightarrow> jsstring" where
  "stripQuoteMark line =
     (case line of
        [] \<Rightarrow> []
      | c # cs \<Rightarrow>
          if c = 62 then (case cs of [] \<Rightarrow> [] | x # xs \<Rightarrow> if isSpace x then xs else cs)
          else line)"

definition push :: "mdState \<Rightarrow> jsstring \<Rightarrow> mdState" where
  "push st block = st\<lparr>html := html st @ [block]\<rparr>"

text \<open>The callback of \<^verbatim>\<open>lines.forEach\<close>; each \<^verbatim>\<open>return\<close> ends one branch.\<close>

definition processLine :: "mdState \<Rightarrow> jsstring \<Rightarrow> mdState" where
  "processLine st rawLine =
     (let line = stripCR rawLine in
      if prefix (js ''```'') line then
        (if inCode st then flushCode st else st\<lparr>inCode := True\<rparr>)
      else if inCode st then st\<lparr>codeLines := codeLines st @ [line]\<rparr>
      else
        (case headingMatch line of
           Some (hashes, text) \<Rightarrow>
             (let st1 = flushList st; level = numToString (int (length hashes))
              in push st1 (js ''<h'' @ level @ js ''>'' @ inlineMarkdown text
                           @ js ''</h'' @ level @ js ''>''))
         | None \<Rightarrow>
             (case listMatch line of
                Some text \<Rightarrow> st\<lparr>listBuffer := listBuffer st @ [inlineMarkdown text]\<rparr>
              | None \<Rightarrow>
                  (let st1 = flushList st in
                   if trim line = [] then st1
                   else if prefix (js ''>'') line then
                     push st1 (js ''<blockquote>'' @ inlineMarkdown (stripQuoteMark line)
                               @ js ''</blockquote>'')
                   else push st1 (js ''<p>'' @ inlineMarkdown line @ js ''</p>'')))))"

definition initialState :: mdState where
  "initialState = \<lparr>html = [], inCode = False, codeLines = [], listBuffer = []\<rparr>"

definition markdownToHtml :: "jsstring \<Rightarrow> jsstring" where
  "markdownToHtml markdown =
     (let lines = split NL markdown;
          st = foldl processLine initialState lines;
          st = flushList st;
          st = flushCode st
      in join [NL] (html st))"

text \<open>The block that \<^verbatim>\<open>flushList\<close> pushes for a list buffer: one \<^verbatim>\<open><li>\<close> element for
  each item, in order, inside one \<^verbatim>\<open><ul>\<close> element.\<close>

definition listBlock :: "jsstring list \<Rightarrow> jsstring" where
  "listBlock items =
     js ''<ul>'' @ concat (map (\<lambda>item. js ''<li>'' @ item @ js ''</li>'') items) @ js ''</ul>''"

text \<open>Outside a code block the code buffer is empty.\<close>

definition codeBufferClean :: "mdState \<Rightarrow> bool" where
  "codeBufferClean st = (inCode st \<or> codeLines st = [])"

section \<open>RelativeDateFormatter: formatRelativeDate\<close>

text \<open>
  What the page and the engine supply: the \<^verbatim>\<open>lang\<close> attribute of the document element,
  the time of \<^verbatim>\<open>new Date()\<close> in milliseconds, the engine's parser of date strings
  (\<open>None\<close> for an invalid date, whose time is \<^verbatim>\<open>NaN\<close>), and the local midnight that
  \<^verbatim>\<open>new Date(d.getFullYear(), d.getMonth(), d.getDate())\<close> builds for a time \<open>d\<close>.
  Times are integers of milliseconds; below \<open>2^53\<close> the division by 86400000 in doubles
  followed by \<^verbatim>\<open>Math.floor\<close> is the integer division that rounds down.
\<close>

record env =
  documentLang :: jsstring
  now :: int
  dateParse :: "jsstring \<Rightarrow> int option"
  startOfDay :: "int \<Rightarrow> int"

definition parseDate :: "env \<Rightarrow> jsstring \<Rightarrow> int option" where
  "parseDate e v =
     (let cleaned = trim v;
          isoCandidate = replaceUnit 47 [45] (replaceUnit 46 [45] cleaned)
      in case dateParse e isoCandidate of
           Some direct \<Rightarrow> Some direct
         | None \<Rightarrow>
             if length cleaned = 8 \<and> list_all isDigit cleaned then
               (let y = slice cleaned 0 4; m = slice cleaned 4 6; d = slice cleaned 6 8
                in dateParse e (y @ [45] @ m @ [45] @ d))
             else None)"

datatype language = Ko | En

datatype timeUnit = Day | Week | Month | Year

record copy =
  today :: jsstring
  day :: "int \<Rightarrow> jsstring"
  week :: "int \<Rightarrow> jsstring"
  month :: "int \<Rightarrow> jsstring"
  year :: "int \<Rightarrow> jsstring"

text \<open>The Korean phrases, as UTF-16 code units: U+C624 U+B298 is the word for today;
  U+C77C, U+C8FC, U+B2EC, U+B144 are day, week, month, year; U+C804 is "ago".\<close>

fun TEXT :: "language \<Rightarrow> copy" where
  "TEXT Ko = \<lparr>today = [50724, 45720],
              day = (\<lambda>n. numToString n @ [51068, 32, 51204]),
              week = (\<lambda>n. numToString n @ [51452, 32, 51204]),
              month = (\<lambda>n. numToString n @ [45804, 32, 51204]),
              year = (\<lambda>n. numToString n @ [45380, 32, 51204])\<rparr>"
| "TEXT En = \<lparr>today = js ''Today'',
              day = (\<lambda>n. numToString n @ js '' days ago''),
              week = (\<lambda>n. numToString n @ js '' weeks ago''),
              month = (\<lambda>n. numToString n @ js '' months ago''),
              year = (\<lambda>n. numToString n @ js '' years ago'')\<rparr>"

text \<open>\<^verbatim>\<open>copy[unit]\<close> for the four units that the formatter passes.\<close>

fun member :: "copy \<Rightarrow> timeUnit \<Rightarrow> int \<Rightarrow> jsstring" where
  "member c Day = day c"
| "member c Week = week c"
| "member c Month = month c"
| "member c Year = year c"

definition activeLanguage :: "env \<Rightarrow> language" where
  "activeLanguage e =
     (if startsWith (orElse (documentLang e) (js ''ko'')) (js ''en'') then En else Ko)"

definition relative :: "env \<Rightarrow> int \<Rightarrow> timeUnit \<Rightarrow> jsstring" where
  "relative e n u = (let lang = activeLanguage e; c = TEXT lang in member c u n)"

definition formatRelativeDate :: "env \<Rightarrow> jsstring \<Rightarrow> jsstring" where
  "formatRelativeDate e v =
     (if v = [] then []
      else
        case parseDate e v of
          None \<Rightarrow> v
        | Some parsed \<Rightarrow>
            let startOfToday = startOfDay e (now e);
                target = startOfDay e parsed;
                diffMs = startOfToday - target;
                diffDays = diffMs div 86400000
            in if diffDays \<le> 0 then [50724, 45720]
               else if diffDays < 7 then relative e diffDays Day
               else
                 let weeks = diffDays div 7 in
                 if weeks < 4 then relative e weeks Week
                 else
                   let months = diffDays div 30 in
                   if months < 12 then relative e months Month
                   else
                     let years = diffDays div 365 in
                     relative e years Year)"

section \<open>ReviewCatalog: loadReviews\<close>

record review =
  title :: jsstring
  date :: jsstring
  url :: jsstring

text \<open>
  The comparator \<^verbatim>\<open>(a, b) => new Date(b.date) - new Date(a.date)\<close>: the difference of
  the two times, \<open>None\<close> for \<^verbatim>\<open>NaN\<close> when one of the dates is invalid.
\<close>

definition compareReviews :: "env \<Rightarrow> review \<Rightarrow> review \<Rightarrow> int option" where
  "compareReviews e a b =
     (case (dateParse e (date b), dateParse e (date a)) of
        (Some tb, Some ta) \<Rightarrow> Some (tb - ta)
      | _ \<Rightarrow> None)"

text \<open>
  \<^verbatim>\<open>Array.prototype.sort(comparefn)\<close>: a comparator result of \<^verbatim>\<open>NaN\<close> counts as 0, and
  the sort is stable. It is modelled as the stable insertion sort: \<open>x\<close>, which stood
  before the elements of the sorted \<open>ys\<close>, passes those that the comparator puts first.
  For a comparator that is a consistent order every stable sort gives this result. For
  an inconsistent one (some dates parse and some do not) the language leaves the order to
  the engine: there the model is one admissible order, not that of a given engine, and
  nothing below is stated about such lists.
\<close>

definition sortCompare :: "('a \<Rightarrow> 'a \<Rightarrow> int option) \<Rightarrow> 'a \<Rightarrow> 'a \<Rightarrow> int" where
  "sortCompare comparefn x y = (case comparefn x y of None \<Rightarrow> 0 | Some v \<Rightarrow> v)"

fun insertSorted :: "('a \<Rightarrow> 'a \<Rightarrow> int option) \<Rightarrow> 'a \<Rightarrow> 'a list \<Rightarrow> 'a list" where
  "insertSorted comparefn x [] = [x]"
| "insertSorted comparefn x (y # ys) =
     (if sortCompare comparefn x y > 0 then y # insertSorted comparefn x ys else x # y # ys)"

definition sortBy :: "('a \<Rightarrow> 'a \<Rightarrow> int option) \<Rightarrow> 'a list \<Rightarrow> 'a list" where
  "sortBy comparefn xs = foldr (insertSorted comparefn) xs []"

text \<open>
  \<^verbatim>\<open>loadReviews\<close> after the fetches: \<open>metadata\<close> holds the result of
  \<^verbatim>\<open>fetchReviewMetadata\<close> for each file, \<open>None\<close> for \<^verbatim>\<open>null\<close>. With no file the result
  is empty; \<^verbatim>\<open>filter(Boolean)\<close> keeps the records.
\<close>

definition loadReviews :: "env \<Rightarrow> review option list \<Rightarrow> review list" where
  "loadReviews e metadata =
     (if metadata = [] then []
      else sortBy (compareReviews e) (List.map_filter (\<lambda>m. m) metadata))"

section \<open>Facts about the string helpers\<close>

lemma js_Nil: "js [] = []"
  by (simp add: js_def)

lemma js_Cons: "js (c # cs) = of_char c # js cs"
  by (simp add: js_def)

lemmas js_simps = js_Nil js_Cons

lemma lazyUntil_decompose:
  "lazyUntil ok d s = Some (cap, rest) \<Longrightarrow> s = cap @ d @ rest"
proof (induction s arbitrary: cap rest)
  case Nil
  then show ?case by (simp split: if_splits)
next
  case (Cons c cs)
  show ?case
  proof (cases "prefix d (c # cs)")
    case True
    with Cons.prems have "cap = []" "rest = drop (length d) (c # cs)" by simp_all
    moreover from True have "c # cs = d @ drop (length d) (c # cs)"
      by (metis append_eq_conv_conj prefix_def)
    ultimately show ?thesis by simp
  next
    case False
    with Cons.prems obtain cap' where "ok c" "lazyUntil ok d cs = Some (cap', rest)" "cap = c # cap'"
      by (auto split: if_splits option.splits)
    with Cons.IH show ?thesis by simp
  qed
qed

lemma matchFrontMatterBlock_prefix:
  assumes "matchFrontMatterBlock text = Some (whole, group1)"
  shows "prefix whole text"
proof -
  from assms have p: "prefix (js ''---\<newline>'') text"
    by (simp add: matchFrontMatterBlock_def split: if_splits)
  from assms p obtain rest where
    l: "lazyUntil anyUnit (js ''\<newline>---'') (drop 4 text) = Some (group1, rest)" and
    w: "whole = js ''---\<newline>'' @ group1 @ js ''\<newline>---'' @ (if prefix [NL] rest then [NL] else [])"
    by (auto simp: matchFrontMatterBlock_def split: if_splits option.splits)
  from p obtain r0 where t: "text = js ''---\<newline>'' @ r0"
    by (auto simp: prefix_def)
  then have r0: "drop 4 text = r0" by (simp add: js_simps)
  from lazyUntil_decompose [OF l] r0 have d: "r0 = group1 @ js ''\<newline>---'' @ rest"
    by simp
  have "prefix (if prefix [NL] rest then [NL] else []) rest" by simp
  then obtain r2 where "rest = (if prefix [NL] rest then [NL] else []) @ r2"
    by (auto simp: prefix_def)
  then have "js ''\<newline>---'' @ rest
      = (js ''\<newline>---'' @ (if prefix [NL] rest then [NL] else [])) @ r2"
    by simp
  with t d w have "text = whole @ r2" by simp
  then show ?thesis by (simp add: prefix_def)
qed

lemma matchFrontMatterBlock_shape:
  assumes "matchFrontMatterBlock text = Some (whole, group1)"
  shows "whole = js ''---\<newline>'' @ group1 @ js ''\<newline>---''
       \<or> whole = js ''---\<newline>'' @ group1 @ js ''\<newline>---'' @ [NL]"
  using assms
  by (auto simp: matchFrontMatterBlock_def split: if_splits option.splits)

section \<open>Facts about the renderer\<close>

lemma processLine_fence_opens:
  "\<not> inCode st \<Longrightarrow> prefix (js ''```'') (stripCR l) \<Longrightarrow> processLine st l = st\<lparr>inCode := True\<rparr>"
  by (simp add: processLine_def)

lemma processLine_in_code:
  "inCode st \<Longrightarrow> \<not> prefix (js ''```'') (stripCR l)
   \<Longrightarrow> processLine st l = st\<lparr>codeLines := codeLines st @ [stripCR l]\<rparr>"
  by (simp add: processLine_def)

lemma foldl_processLine_in_code:
  "inCode st \<Longrightarrow> list_all (\<lambda>l. \<not> prefix (js ''```'') (stripCR l)) cs
   \<Longrightarrow> foldl processLine st cs = st\<lparr>codeLines := codeLines st @ map stripCR cs\<rparr>"
proof (induction cs arbitrary: st)
  case Nil
  then show ?case by simp
next
  case (Cons c cs)
  then have "processLine st c = st\<lparr>codeLines := codeLines st @ [stripCR c]\<rparr>"
    by (simp add: processLine_in_code)
  moreover have "inCode (st\<lparr>codeLines := codeLines st @ [stripCR c]\<rparr>)"
    using Cons.prems by simp
  ultimately show ?case using Cons.IH [of "st\<lparr>codeLines := codeLines st @ [stripCR c]\<rparr>"] Cons.prems
    by simp
qed

lemma flushList_fields:
  "inCode (flushList st) = inCode st" "codeLines (flushList st) = codeLines st"
  by (simp_all add: flushList_def Let_def)

lemma codeBufferClean_processLine:
  "codeBufferClean st \<Longrightarrow> codeBufferClean (processLine st l)"
  by (auto simp: codeBufferClean_def processLine_def flushCode_def push_def Let_def flushList_fields
           split: option.splits)

lemma codeBufferClean_foldl:
  "codeBufferClean st \<Longrightarrow> codeBufferClean (foldl processLine st ls)"
  by (induction ls arbitrary: st) (simp_all add: codeBufferClean_processLine)

lemma codeBufferClean_initial: "codeBufferClean initialState"
  by (simp add: codeBufferClean_def initialState_def)

lemma html_at_end:
  "html (flushCode (flushList st)) =
     html st
     @ (if listBuffer st = [] then []
        else [js ''<ul>'' @ concat (map (\<lambda>item. js ''<li>'' @ item @ js ''</li>'') (listBuffer st))
              @ js ''</ul>''])
     @ (if inCode st
        then [js ''<pre><code>'' @ escapeHtml (join [NL] (codeLines st)) @ js ''</code></pre>'']
        else [])"
  by (simp add: flushCode_def flushList_def Let_def)

lemma listMatch_Some:
  assumes "listMatch line = Some t"
  shows "\<not> prefix (js ''```'') line" "headingMatch line = None" "t = dropWhile isSpace (tl line)"
proof -
  from assms obtain c after where l: "line = c # after" and c: "c = 45 \<or> c = 42 \<or> c = 43"
    and t: "t = dropWhile isSpace after"
    by (auto simp: listMatch_def Let_def split: list.splits if_splits)
  from l c show "\<not> prefix (js ''```'') line" by (auto simp: js_simps)
  from l c show "headingMatch line = None" by (auto simp: headingMatch_def)
  from l t show "t = dropWhile isSpace (tl line)" by simp
qed

text \<open>A marker, white space and a text that starts with no white space and holds no line
  terminator form a list-item line, and the text is the item.\<close>

lemma listMatch_item_line:
  assumes "c = 45 \<or> c = 42 \<or> c = 43" "ws \<noteq> []" "list_all isSpace ws"
    and "t = [] \<or> \<not> isSpace (hd t)" "list_all notLineTerminator t"
  shows "listMatch (c # ws @ t) = Some t"
proof -
  from assms(3) have all: "\<And>x. x \<in> set ws \<Longrightarrow> isSpace x" by (simp add: list_all_iff)
  from assms(4) have t: "dropWhile isSpace t = t" "takeWhile isSpace t = []"
    by (cases t; simp)+
  from all t have d: "dropWhile isSpace (ws @ t) = t"
    by (simp add: dropWhile_append2)
  from all t have "takeWhile isSpace (ws @ t) = ws"
    by (simp add: takeWhile_append2)
  with assms(1,2,5) d show ?thesis
    by (simp add: listMatch_def Let_def)
qed

lemma processLine_item:
  assumes "\<not> inCode st" "listMatch (stripCR l) = Some t"
  shows "processLine st l = st\<lparr>listBuffer := listBuffer st @ [inlineMarkdown t]\<rparr>"
  using assms listMatch_Some(1,2) [OF assms(2)]
  by (simp add: processLine_def)

lemma foldl_processLine_items:
  "\<not> inCode st \<Longrightarrow> list_all (\<lambda>l. listMatch (stripCR l) \<noteq> None) items
   \<Longrightarrow> foldl processLine st items
       = st\<lparr>listBuffer := listBuffer st
               @ map (\<lambda>l. inlineMarkdown (dropWhile isSpace (tl (stripCR l)))) items\<rparr>"
proof (induction items arbitrary: st)
  case Nil
  then show ?case by simp
next
  case (Cons l items)
  from Cons.prems obtain t where t: "listMatch (stripCR l) = Some t" by auto
  have step: "processLine st l
      = st\<lparr>listBuffer := listBuffer st @ [inlineMarkdown (dropWhile isSpace (tl (stripCR l)))]\<rparr>"
    using processLine_item [OF Cons.prems(1) t] listMatch_Some(3) [OF t] by simp
  show ?case
    using Cons.IH [of "st\<lparr>listBuffer := listBuffer st @ [inlineMarkdown (dropWhile isSpace (tl (stripCR l)))]\<rparr>"]
      Cons.prems step
    by simp
qed

lemma flushList_pending:
  "listBuffer st \<noteq> [] \<Longrightarrow>
   flushList st = st\<lparr>html := html st @ [listBlock (listBuffer st)], listBuffer := []\<rparr>"
  by (simp add: flushList_def Let_def listBlock_def)

lemma flushList_idem: "flushList (flushList st) = flushList st"
  by (simp add: flushList_def Let_def)

lemma flushList_html_prefix:
  "flushList (st\<lparr>html := p @ html st\<rparr>) = (flushList st)\<lparr>html := p @ html (flushList st)\<rparr>"
  by (simp add: flushList_def Let_def)

lemma flushCode_html_prefix:
  "flushCode (st\<lparr>html := p @ html st\<rparr>) = (flushCode st)\<lparr>html := p @ html (flushCode st)\<rparr>"
  by (simp add: flushCode_def)

lemma push_html_prefix:
  "push (st\<lparr>html := p @ html st\<rparr>) b = (push st b)\<lparr>html := p @ html (push st b)\<rparr>"
  by (simp add: push_def)

lemma processLine_html_prefix:
  "processLine (st\<lparr>html := p @ html st\<rparr>) l
   = (processLine st l)\<lparr>html := p @ html (processLine st l)\<rparr>"
proof (cases "prefix (js ''```'') (stripCR l)")
  case True
  then show ?thesis by (simp add: processLine_def flushCode_def)
next
  case False
  note nofence = this
  show ?thesis
  proof (cases "inCode st")
    case True
    with nofence show ?thesis by (simp add: processLine_def)
  next
    case False
    note outside = this
    show ?thesis
    proof (cases "headingMatch (stripCR l)")
      case (Some h)
      with nofence outside show ?thesis
        by (simp add: processLine_def Let_def flushList_def push_def split: prod.splits)
    next
      case None
      note nohead = this
      show ?thesis
      proof (cases "listMatch (stripCR l)")
        case (Some t)
        with nofence outside nohead show ?thesis by (simp add: processLine_def)
      next
        case None
        with nofence outside nohead show ?thesis
          by (simp add: processLine_def Let_def flushList_def push_def)
      qed
    qed
  qed
qed

lemma foldl_processLine_html_prefix:
  "foldl processLine (st\<lparr>html := p @ html st\<rparr>) ls
   = (foldl processLine st ls)\<lparr>html := p @ html (foldl processLine st ls)\<rparr>"
proof (induction ls arbitrary: st)
  case Nil
  show ?case by simp
next
  case (Cons l ls)
  show ?case by (simp add: processLine_html_prefix Cons.IH)
qed

lemma html_at_end_prefix:
  "html (flushCode (flushList (foldl processLine st ls)))
   = html st @ html (flushCode (flushList (foldl processLine (st\<lparr>html := []\<rparr>) ls)))"
proof -
  have "st = (st\<lparr>html := []\<rparr>)\<lparr>html := html st @ html (st\<lparr>html := []\<rparr>)\<rparr>"
    by simp
  then have "foldl processLine st ls
      = (foldl processLine (st\<lparr>html := []\<rparr>) ls)
          \<lparr>html := html st @ html (foldl processLine (st\<lparr>html := []\<rparr>) ls)\<rparr>"
    using foldl_processLine_html_prefix [where st = "st\<lparr>html := []\<rparr>" and p = "html st" and ls = ls]
    by simp
  then have "flushCode (flushList (foldl processLine st ls))
      = (flushCode (flushList (foldl processLine (st\<lparr>html := []\<rparr>) ls)))
          \<lparr>html := html st @ html (flushCode (flushList (foldl processLine (st\<lparr>html := []\<rparr>) ls)))\<rparr>"
    by (simp only: flushList_html_prefix flushCode_html_prefix)
  then show ?thesis by simp
qed

lemma processLine_after_list:
  assumes "\<not> inCode st" "listMatch (stripCR l) = None" "\<not> prefix (js ''```'') (stripCR l)"
  shows "processLine st l = processLine (flushList st) l"
  using assms
  by (simp add: processLine_def Let_def flushList_idem flushList_fields split: option.splits)

lemma processLine_pending_list:
  assumes "listBuffer st \<noteq> []"
  shows "(\<exists>b ext. html (processLine st l) = html st @ b
            \<and> listBuffer (processLine st l) = listBuffer st @ ext)
       \<or> (\<exists>b. html (processLine st l) = html st @ [listBlock (listBuffer st)] @ b)"
proof (cases "prefix (js ''```'') (stripCR l)")
  case True
  then have "html (processLine st l) = html st @ (if inCode st
        then [js ''<pre><code>'' @ escapeHtml (join [NL] (codeLines st)) @ js ''</code></pre>'']
        else [])"
    and "listBuffer (processLine st l) = listBuffer st @ []"
    by (simp_all add: processLine_def flushCode_def)
  then show ?thesis by blast
next
  case False
  note nofence = this
  show ?thesis
  proof (cases "inCode st")
    case True
    with nofence have "html (processLine st l) = html st @ []"
      and "listBuffer (processLine st l) = listBuffer st @ []"
      by (simp_all add: processLine_def)
    then show ?thesis by blast
  next
    case False
    note outside = this
    show ?thesis
    proof (cases "listMatch (stripCR l)")
      case (Some t)
      with outside have "processLine st l = st\<lparr>listBuffer := listBuffer st @ [inlineMarkdown t]\<rparr>"
        by (simp add: processLine_item)
      then have "html (processLine st l) = html st @ []"
        and "listBuffer (processLine st l) = listBuffer st @ [inlineMarkdown t]"
        by simp_all
      then show ?thesis by blast
    next
      case None
      with outside nofence have step: "processLine st l = processLine (flushList st) l"
        by (simp add: processLine_after_list)
      define st' where "st' = st\<lparr>html := [], listBuffer := []\<rparr>"
      have "flushList st = st'\<lparr>html := (html st @ [listBlock (listBuffer st)]) @ html st'\<rparr>"
        using assms by (simp add: flushList_pending st'_def)
      then have "processLine (flushList st) l
          = (processLine st' l)\<lparr>html := (html st @ [listBlock (listBuffer st)])
                                         @ html (processLine st' l)\<rparr>"
        by (simp only: processLine_html_prefix)
      with step have "html (processLine st l)
          = html st @ [listBlock (listBuffer st)] @ html (processLine st' l)"
        by simp
      then show ?thesis by blast
    qed
  qed
qed

lemma pending_list_is_emitted:
  "listBuffer st \<noteq> [] \<Longrightarrow>
   \<exists>pre more post. html (flushCode (flushList (foldl processLine st rest)))
     = html st @ pre @ [listBlock (listBuffer st @ more)] @ post"
proof (induction rest arbitrary: st)
  case Nil
  then have "html (flushCode (flushList (foldl processLine st [])))
     = html st @ [] @ [listBlock (listBuffer st @ [])]
       @ (if inCode st
          then [js ''<pre><code>'' @ escapeHtml (join [NL] (codeLines st)) @ js ''</code></pre>'']
          else [])"
    by (simp add: html_at_end listBlock_def)
  then show ?case by blast
next
  case (Cons l rest)
  from processLine_pending_list [OF Cons.prems, of l]
  show ?case
  proof
    assume "\<exists>b ext. html (processLine st l) = html st @ b
            \<and> listBuffer (processLine st l) = listBuffer st @ ext"
    then obtain b ext where h: "html (processLine st l) = html st @ b"
      and lb: "listBuffer (processLine st l) = listBuffer st @ ext"
      by blast
    from lb Cons.prems have "listBuffer (processLine st l) \<noteq> []" by simp
    from Cons.IH [OF this] obtain pre more post where
      "html (flushCode (flushList (foldl processLine (processLine st l) rest)))
       = html (processLine st l) @ pre @ [listBlock (listBuffer (processLine st l) @ more)] @ post"
      by blast
    with h lb have "html (flushCode (flushList (foldl processLine st (l # rest))))
       = html st @ (b @ pre) @ [listBlock (listBuffer st @ (ext @ more))] @ post"
      by simp
    then show ?thesis by blast
  next
    assume "\<exists>b. html (processLine st l) = html st @ [listBlock (listBuffer st)] @ b"
    then obtain b where h: "html (processLine st l) = html st @ [listBlock (listBuffer st)] @ b"
      by blast
    have "html (flushCode (flushList (foldl processLine st (l # rest))))
       = html (processLine st l)
         @ html (flushCode (flushList (foldl processLine ((processLine st l)\<lparr>html := []\<rparr>) rest)))"
      using html_at_end_prefix [of "processLine st l" rest] by simp
    with h have "html (flushCode (flushList (foldl processLine st (l # rest))))
       = html st @ [] @ [listBlock (listBuffer st @ [])]
         @ (b @ html (flushCode (flushList (foldl processLine ((processLine st l)\<lparr>html := []\<rparr>) rest))))"
      by simp
    then show ?thesis by blast
  qed
qed

section \<open>Facts about inline formatting\<close>

lemma count_replaceUnit:
  "count_list (replaceUnit c r s) x
   = count_list s c * count_list r x + (if x = c then 0 else count_list s x)"
  by (induction s) (simp_all add: replaceUnit_def)

lemma count_amp_escapeHtml:
  "count_list (escapeHtml s) 38 = count_list s 38 + count_list s 60 + count_list s 62"
  by (simp add: escapeHtml_def count_replaceUnit js_simps)

lemma count_as_filter:
  "count_list s (38::nat) + count_list s 60 + count_list s 62
   = length (filter (\<lambda>c. c = 38 \<or> c = 60 \<or> c = 62) s)"
  by (induction s) auto

lemma escapeHtml_no_angle: "60 \<notin> set (escapeHtml s)" "62 \<notin> set (escapeHtml s)"
  by (auto simp: escapeHtml_def replaceUnit_def js_simps split: if_splits)

lemma matchDelimited_decompose:
  assumes "matchDelimited d s = Some (cap, rest)"
  shows "s = d @ cap @ d @ rest"
proof -
  from assms have p: "prefix d s"
    by (simp add: matchDelimited_def split: if_splits)
  from assms p obtain c cs cap' where
    dr: "drop (length d) s = c # cs" and
    l: "lazyUntil notLineTerminator d cs = Some (cap', rest)" and cap: "cap = c # cap'"
    by (auto simp: matchDelimited_def split: list.splits if_splits option.splits)
  from p obtain r where "s = d @ r" by (auto simp: prefix_def)
  with dr have "s = d @ c # cs" by simp
  with lazyUntil_decompose [OF l] cap show ?thesis by simp
qed

lemma count_replaceDelimited:
  "count_list d x = 0 \<Longrightarrow> count_list opn x = 0 \<Longrightarrow> count_list cls x = 0
   \<Longrightarrow> count_list (replaceDelimited d opn cls s) x = count_list s x"
proof (induction d opn cls s rule: replaceDelimited.induct)
  case (1 d opn cls)
  show ?case by simp
next
  case (2 d opn cls c cs)
  show ?case
  proof (cases "matchDelimited d (c # cs)")
    case None
    with 2 show ?thesis by simp
  next
    case (Some m)
    obtain cap rest where m: "m = (cap, rest)" by (cases m)
    from Some m have eq: "matchDelimited d (c # cs) = Some (cap, rest)" by simp
    from matchDelimited_decompose [OF eq] have "c # cs = d @ cap @ d @ rest" .
    then have "count_list (c # cs) x = count_list (d @ cap @ d @ rest) x"
      by (rule arg_cong)
    also have "\<dots> = count_list cap x + count_list rest x"
      using "2.prems"(1) by simp
    finally have lhs: "count_list (c # cs) x = count_list cap x + count_list rest x" .
    have ih: "count_list (replaceDelimited d opn cls rest) x = count_list rest x"
      using "2.IH"(2) eq "2.prems" by simp
    have "replaceDelimited d opn cls (c # cs) = opn @ cap @ cls @ replaceDelimited d opn cls rest"
      using eq by simp
    then have "count_list (replaceDelimited d opn cls (c # cs)) x
        = count_list (opn @ cap @ cls @ replaceDelimited d opn cls rest) x"
      by (rule arg_cong)
    also have "\<dots> = count_list cap x + count_list rest x"
      using "2.prems"(2,3) ih by simp
    finally show ?thesis using lhs by (simp only:)
  qed
qed

lemma matchCode_decompose:
  assumes "matchCode s = Some (cap, rest)"
  shows "s = 96 # cap @ 96 # rest"
proof -
  from assms obtain cs where s: "s = 96 # cs"
    by (auto simp: matchCode_def Let_def split: list.splits if_splits)
  with assms have cap: "cap = takeWhile (\<lambda>x. x \<noteq> 96) cs"
    and rest: "rest = drop 1 (dropWhile (\<lambda>x. x \<noteq> 96) cs)"
    and ne: "dropWhile (\<lambda>x. x \<noteq> 96) cs \<noteq> []"
    by (auto simp: matchCode_def Let_def split: if_splits)
  from ne have "hd (dropWhile (\<lambda>x. x \<noteq> 96) cs) = 96"
    using hd_dropWhile [of "\<lambda>x. x \<noteq> 96" cs] by simp
  with ne rest have "dropWhile (\<lambda>x. x \<noteq> 96) cs = 96 # rest"
    by (cases "dropWhile (\<lambda>x. x \<noteq> 96) cs") simp_all
  with cap have "cs = cap @ 96 # rest"
    using takeWhile_dropWhile_id [of "\<lambda>x. x \<noteq> 96" cs] by simp
  with s show ?thesis by simp
qed

lemma count_replaceCode:
  assumes "x \<noteq> 96" "count_list (js ''<code>'') x = 0" "count_list (js ''</code>'') x = 0"
  shows "count_list (replaceCode s) x = count_list s x"
proof (induction s rule: replaceCode.induct)
  case 1
  show ?case by simp
next
  case (2 c cs)
  show ?case
  proof (cases "matchCode (c # cs)")
    case None
    with 2 show ?thesis by simp
  next
    case (Some m)
    obtain cap rest where m: "m = (cap, rest)" by (cases m)
    from Some m have eq: "matchCode (c # cs) = Some (cap, rest)" by simp
    from matchCode_decompose [OF eq] have "c # cs = 96 # cap @ 96 # rest" .
    then have "count_list (c # cs) x = count_list (96 # cap @ 96 # rest) x"
      by (rule arg_cong)
    also have "\<dots> = count_list cap x + count_list rest x"
      using assms(1) by simp
    finally have lhs: "count_list (c # cs) x = count_list cap x + count_list rest x" .
    have ih: "count_list (replaceCode rest) x = count_list rest x"
      using 2 eq by simp
    have "replaceCode (c # cs) = js ''<code>'' @ cap @ js ''</code>'' @ replaceCode rest"
      using eq by simp
    then have "count_list (replaceCode (c # cs)) x
        = count_list (js ''<code>'' @ cap @ js ''</code>'' @ replaceCode rest) x"
      by (rule arg_cong)
    also have "\<dots> = count_list cap x + count_list rest x"
      using assms(2,3) ih by simp
    finally show ?thesis using lhs by (simp only:)
  qed
qed

section \<open>Facts about the metadata parser\<close>

lemma indexOf_absent: "c \<notin> set s \<Longrightarrow> indexOf c s = -1"
  by (induction s) (simp_all add: Let_def)

lemma indexOf_present: "c \<in> set s \<Longrightarrow> indexOf c s = int (length (takeWhile (\<lambda>x. x \<noteq> c) s))"
proof (induction s)
  case Nil
  then show ?case by simp
next
  case (Cons x xs)
  show ?case
  proof (cases "x = c")
    case True
    then show ?thesis by simp
  next
    case False
    with Cons.prems have "c \<in> set xs" by simp
    with Cons.IH have "indexOf c xs = int (length (takeWhile (\<lambda>x. x \<noteq> c) xs))" by simp
    with False show ?thesis by (simp add: Let_def)
  qed
qed

lemma slice_before_index:
  "c \<in> set s \<Longrightarrow> slice s 0 (indexOf c s) = takeWhile (\<lambda>x. x \<noteq> c) s"
proof -
  assume "c \<in> set s"
  then have "slice s 0 (indexOf c s) = take (length (takeWhile (\<lambda>x. x \<noteq> c) s)) s"
    by (simp add: indexOf_present slice_def)
  also have "\<dots> = takeWhile (\<lambda>x. x \<noteq> c) s"
    by (simp add: takeWhile_eq_take [symmetric])
  finally show ?thesis .
qed

lemma slice_after_index:
  "c \<in> set s \<Longrightarrow> sliceFrom s (indexOf c s + 1) = tl (dropWhile (\<lambda>x. x \<noteq> c) s)"
proof -
  assume "c \<in> set s"
  then have "sliceFrom s (indexOf c s + 1) = drop (Suc (length (takeWhile (\<lambda>x. x \<noteq> c) s))) s"
    by (simp add: indexOf_present sliceFrom_def nat_add_distrib)
  also have "\<dots> = tl (drop (length (takeWhile (\<lambda>x. x \<noteq> c) s)) s)"
    by (simp add: drop_Suc tl_drop)
  also have "\<dots> = tl (dropWhile (\<lambda>x. x \<noteq> c) s)"
    by (simp add: dropWhile_eq_drop [symmetric])
  finally show ?thesis .
qed

section \<open>Facts about the filename inference\<close>

lemma splitAcc_head:
  "splitAcc sep cur s =
     (cur @ takeWhile (\<lambda>x. x \<noteq> sep) s)
     # (if sep \<in> set s then splitAcc sep [] (tl (dropWhile (\<lambda>x. x \<noteq> sep) s)) else [])"
  by (induction s arbitrary: cur) simp_all

lemma join_splitAcc: "join [sep] (splitAcc sep cur s) = cur @ s"
proof (induction s arbitrary: cur)
  case Nil
  show ?case by simp
next
  case (Cons c cs)
  show ?case
  proof (cases "c = sep")
    case True
    obtain l ls where "splitAcc sep [] cs = l # ls"
      by (cases "splitAcc sep [] cs") (simp_all add: splitAcc_head [of sep "[]" cs])
    with Cons.IH [of "[]"] True show ?thesis by simp
  next
    case False
    with Cons.IH [of "cur @ [c]"] show ?thesis by simp
  qed
qed

lemma join_drop_split:
  "join [sep] (drop (Suc 0) (split sep s))
   = (if sep \<in> set s then tl (dropWhile (\<lambda>x. x \<noteq> sep) s) else [])"
proof -
  have "drop (Suc 0) (split sep s)
        = (if sep \<in> set s then splitAcc sep [] (tl (dropWhile (\<lambda>x. x \<noteq> sep) s)) else [])"
    unfolding split_def by (subst splitAcc_head) simp
  then show ?thesis by (simp add: join_splitAcc)
qed

lemma stripMd_suffix: "stripMd (base @ js ''.md'') = base"
  by (simp add: stripMd_def js_simps)

lemma matchDatedName_iff:
  "matchDatedName base = Some rest \<longleftrightarrow>
     (\<exists>d sep. base = d @ sep # rest \<and> isDashedDate d \<and> (sep = 45 \<or> sep = 95)
        \<and> rest \<noteq> [] \<and> list_all notLineTerminator rest)"
proof
  assume m: "matchDatedName base = Some rest"
  then have d: "isDashedDate (take 10 base)" and s: "take 1 (drop 10 base) = [45] \<or> take 1 (drop 10 base) = [95]"
    and r: "rest = drop 11 base" "rest \<noteq> []" "list_all notLineTerminator rest"
    by (auto simp: matchDatedName_def Let_def split: if_splits)
  from s obtain sep where sep: "take 1 (drop 10 base) = [sep]" "sep = 45 \<or> sep = 95" by auto
  have "drop 11 base = drop 1 (drop 10 base)" by simp
  with sep have "drop 10 base = sep # drop 11 base"
    by (cases "drop 10 base") simp_all
  then have "base = take 10 base @ sep # rest"
    using r(1) append_take_drop_id [of 10 base] by simp
  with d sep r show "\<exists>d sep. base = d @ sep # rest \<and> isDashedDate d \<and> (sep = 45 \<or> sep = 95)
        \<and> rest \<noteq> [] \<and> list_all notLineTerminator rest"
    by blast
next
  assume "\<exists>d sep. base = d @ sep # rest \<and> isDashedDate d \<and> (sep = 45 \<or> sep = 95)
        \<and> rest \<noteq> [] \<and> list_all notLineTerminator rest"
  then obtain d sep where b: "base = d @ sep # rest" and d: "isDashedDate d"
    and s: "sep = 45 \<or> sep = 95" and r: "rest \<noteq> []" "list_all notLineTerminator rest"
    by blast
  from d have l: "length d = 10" by (simp add: isDashedDate_def)
  with b have "take 10 base = d" "drop 10 base = sep # rest" "drop 11 base = rest"
    by simp_all
  with d s r show "matchDatedName base = Some rest"
    by (auto simp: matchDatedName_def Let_def)
qed

lemma compact_date_not_dashed:
  assumes "length d = 8" "list_all isDigit d"
  shows "matchDatedName (d @ rest) = None"
proof -
  from assms(1) obtain a b c e f g h i where d: "d = [a, b, c, e, f, g, h, i]"
    by (auto simp: length_Suc_conv eval_nat_numeral)
  with assms(2) have "isDigit f" by simp
  then have "f \<noteq> 45" by (simp add: isDigit_def)
  with d have "take 1 (drop 4 (take 10 (d @ rest))) \<noteq> [45]" by simp
  then have "\<not> isDashedDate (take 10 (d @ rest))" by (simp add: isDashedDate_def)
  then show ?thesis by (simp add: matchDatedName_def Let_def)
qed

lemma digits_no_underscore:
  assumes "list_all isDigit d"
  shows "x \<in> set d \<Longrightarrow> x \<noteq> 95"
  using assms by (auto simp: list_all_iff isDigit_def)

lemma deriveTitleFromFilename_page_eq:
  "deriveTitleFromFilename_page filename =
     (let base = stripMd filename in
      if 95 \<in> set base \<and> tl (dropWhile (\<lambda>c. c \<noteq> 95) base) \<noteq> []
      then tl (dropWhile (\<lambda>c. c \<noteq> 95) base) else filename)"
  by (simp add: deriveTitleFromFilename_page_def Let_def join_drop_split orElse_def)

section \<open>Facts about the date formatter and the catalog\<close>

lemma activeLanguage_eq:
  "activeLanguage e = (if prefix (js ''en'') (documentLang e) then En else Ko)"
  by (simp add: activeLanguage_def startsWith_def orElse_def js_simps)

lemma formatRelativeDate_same_day:
  assumes "v \<noteq> []" "parseDate e v = Some parsed" "startOfDay e parsed = startOfDay e (now e)"
  shows "formatRelativeDate e v = today (TEXT Ko)"
  using assms by (simp add: formatRelativeDate_def Let_def)

lemma mset_insertSorted: "mset (insertSorted comparefn x ys) = add_mset x (mset ys)"
  by (induction ys) simp_all

lemma mset_sortBy: "mset (sortBy comparefn xs) = mset xs"
  unfolding sortBy_def by (induction xs) (simp_all add: mset_insertSorted)

lemma insertSorted_as_insort_key:
  fixes f :: "'a \<Rightarrow> int"
  assumes "\<And>y. y \<in> set ys \<Longrightarrow> (sortCompare comparefn x y > 0) = (f y < f x)"
  shows "insertSorted comparefn x ys = insort_key f x ys"
  using assms by (induction ys) auto

lemma sortBy_as_sort_key:
  fixes f :: "'a \<Rightarrow> int"
  assumes "\<And>x y. x \<in> set xs \<Longrightarrow> y \<in> set xs \<Longrightarrow> (sortCompare comparefn x y > 0) = (f y < f x)"
  shows "sortBy comparefn xs = sort_key f xs"
  using assms
proof (induction xs)
  case Nil
  show ?case by (simp add: sortBy_def)
next
  case (Cons x xs)
  have ih: "sortBy comparefn xs = sort_key f xs"
    using Cons.IH Cons.prems by simp
  have "insertSorted comparefn x (sort_key f xs) = insort_key f x (sort_key f xs)"
    by (rule insertSorted_as_insort_key) (simp add: Cons.prems)
  with ih show ?case by (simp add: sortBy_def)
qed

lemma insertSorted_keeps_front:
  assumes "\<And>y. y \<in> set ys \<Longrightarrow> sortCompare comparefn x y \<le> 0"
  shows "insertSorted comparefn x ys = x # ys"
proof (cases ys)
  case Nil
  then show ?thesis by simp
next
  case (Cons a list)
  with assms [of a] show ?thesis by simp
qed

lemma sortBy_keeps_order:
  assumes "\<And>x y. x \<in> set xs \<Longrightarrow> y \<in> set xs \<Longrightarrow> sortCompare comparefn x y \<le> 0"
  shows "sortBy comparefn xs = xs"
  using assms
proof (induction xs)
  case Nil
  show ?case by (simp add: sortBy_def)
next
  case (Cons x xs)
  have ih: "sortBy comparefn xs = xs"
    using Cons.IH Cons.prems by simp
  have "insertSorted comparefn x xs = x # xs"
    by (rule insertSorted_keeps_front) (simp add: Cons.prems)
  with ih show ?case by (simp add: sortBy_def)
qed

lemma loadReviews_eq:
  "loadReviews e metadata = sortBy (compareReviews e) (List.map_filter (\<lambda>m. m) metadata)"
  by (simp add: loadReviews_def sortBy_def List.map_filter_simps)

section \<open>Claims\<close>

text \<open>
  C5. For every text whose first line is not exactly the \<^verbatim>\<open>---\<close> delimiter line,
  splitFrontMatter returns an empty front matter and the whole text, unchanged, as the body.
  The function is total: it has no failing branch.
\<close>

theorem C5_split_without_opening_delimiter:
  assumes "firstLine text \<noteq> js ''---''"
  shows "splitFrontMatter text = \<lparr>frontmatter = [], body = text\<rparr>"
proof -
  have "\<not> prefix (js ''---\<newline>'') text"
  proof
    assume "prefix (js ''---\<newline>'') text"
    then obtain r where "text = js ''---\<newline>'' @ r" by (auto simp: prefix_def)
    then have "firstLine text = js ''---''" by (simp add: firstLine_def NL_def js_simps)
    with assms show False by simp
  qed
  then show ?thesis by (simp add: splitFrontMatter_def matchFrontMatterBlock_def)
qed

theorem C5_split_without_opening_delimiter_witness:
  "firstLine (js ''title: x\<newline>---\<newline>body'') \<noteq> js ''---''
   \<and> splitFrontMatter (js ''title: x\<newline>---\<newline>body'')
     = \<lparr>frontmatter = [], body = js ''title: x\<newline>---\<newline>body''\<rparr>"
proof -
  have h: "firstLine (js ''title: x\<newline>---\<newline>body'') \<noteq> js ''---''"
    by (simp add: firstLine_def NL_def js_simps)
  show ?thesis using h C5_split_without_opening_delimiter [OF h] by simp
qed

text \<open>
  C10. For every text, the body that splitFrontMatter returns is a suffix of the text,
  unit for unit: either the whole text, or what remains of the text after the opening
  delimiter line, the front matter, the closing delimiter and at most one line feed.
\<close>

theorem C10_body_is_suffix_of_text:
  "suffix (body (splitFrontMatter text)) text
   \<and> (body (splitFrontMatter text) = text
      \<or> (\<exists>nl. (nl = [] \<or> nl = [NL])
            \<and> text = js ''---\<newline>'' @ frontmatter (splitFrontMatter text) @ js ''\<newline>---'' @ nl
                     @ body (splitFrontMatter text)))"
proof (cases "matchFrontMatterBlock text")
  case None
  then show ?thesis by (simp add: splitFrontMatter_def)
next
  case (Some m)
  obtain whole group1 where m: "m = (whole, group1)" by (cases m)
  with Some have eq: "matchFrontMatterBlock text = Some (whole, group1)" by simp
  define r where "r = drop (length whole) text"
  from eq have b: "body (splitFrontMatter text) = r"
    and f: "frontmatter (splitFrontMatter text) = group1"
    by (simp_all add: splitFrontMatter_def sliceFrom_def r_def)
  from matchFrontMatterBlock_prefix [OF eq] obtain r' where t': "text = whole @ r'"
    by (auto simp: prefix_def)
  then have "r' = r" by (simp add: r_def)
  with t' have t: "text = whole @ r" by simp
  from matchFrontMatterBlock_shape [OF eq] obtain nl where
    nl: "nl = [] \<or> nl = [NL]" and w: "whole = js ''---\<newline>'' @ group1 @ js ''\<newline>---'' @ nl"
    by (elim disjE) simp_all
  from t have s: "suffix (body (splitFrontMatter text)) text"
    unfolding b by (simp add: suffix_def)
  from t w have "text = js ''---\<newline>'' @ frontmatter (splitFrontMatter text) @ js ''\<newline>---'' @ nl
                     @ body (splitFrontMatter text)"
    unfolding b f by simp
  with nl s show ?thesis by blast
qed

text \<open>
  C6. At the end of the input markdownToHtml flushes the pending list buffer and then the
  pending code buffer. When the lines end with a fence that nothing closes (\<open>opening\<close>,
  reached outside a code block, then the lines \<open>cs\<close> without a fence), the output is the
  blocks emitted before, then the pending list if there is one, then one code block that
  holds the escaped lines \<open>cs\<close>. For the input of a fence line and the line foo, the
  output is the one code block with content foo.
\<close>

theorem C6_unclosed_fence_is_emitted:
  assumes lines: "split NL markdown = ls @ opening # cs"
    and outside: "\<not> inCode (foldl processLine initialState ls)"
    and fence: "prefix (js ''```'') (stripCR opening)"
    and unclosed: "list_all (\<lambda>l. \<not> prefix (js ''```'') (stripCR l)) cs"
  shows "markdownToHtml markdown =
     join [NL]
       (html (foldl processLine initialState ls)
        @ (if listBuffer (foldl processLine initialState ls) = [] then []
           else [js ''<ul>''
                 @ concat (map (\<lambda>item. js ''<li>'' @ item @ js ''</li>'')
                             (listBuffer (foldl processLine initialState ls)))
                 @ js ''</ul>''])
        @ [js ''<pre><code>'' @ escapeHtml (join [NL] (map stripCR cs)) @ js ''</code></pre>''])"
proof -
  define s0 where "s0 = foldl processLine initialState ls"
  have clean: "codeLines s0 = []"
    using codeBufferClean_foldl [OF codeBufferClean_initial, of ls] outside
    by (simp add: codeBufferClean_def s0_def)
  have s1: "processLine s0 opening = s0\<lparr>inCode := True\<rparr>"
    using outside fence by (simp add: processLine_fence_opens s0_def)
  have "foldl processLine (s0\<lparr>inCode := True\<rparr>) cs
        = s0\<lparr>inCode := True, codeLines := map stripCR cs\<rparr>"
    using foldl_processLine_in_code [of "s0\<lparr>inCode := True\<rparr>" cs] unclosed clean by simp
  with s1 have final: "foldl processLine initialState (ls @ opening # cs)
        = s0\<lparr>inCode := True, codeLines := map stripCR cs\<rparr>"
    by (simp add: s0_def)
  have "markdownToHtml markdown
        = join [NL] (html (flushCode (flushList (s0\<lparr>inCode := True, codeLines := map stripCR cs\<rparr>))))"
    unfolding markdownToHtml_def Let_def lines final ..
  then show ?thesis
    unfolding html_at_end s0_def by simp
qed

theorem C6_unclosed_fence_is_emitted_witness:
  "split NL (js ''```\<newline>foo'') = [] @ js ''```'' # [js ''foo'']
   \<and> \<not> inCode (foldl processLine initialState [])
   \<and> prefix (js ''```'') (stripCR (js ''```''))
   \<and> list_all (\<lambda>l. \<not> prefix (js ''```'') (stripCR l)) [js ''foo'']
   \<and> markdownToHtml (js ''```\<newline>foo'') = js ''<pre><code>foo</code></pre>''"
proof -
  have h1: "split NL (js ''```\<newline>foo'') = [] @ js ''```'' # [js ''foo'']"
    by (simp add: split_def NL_def js_simps)
  have h2: "\<not> inCode (foldl processLine initialState [])"
    by (simp add: initialState_def)
  have h3: "prefix (js ''```'') (stripCR (js ''```''))"
    by (simp add: stripCR_def CR_def js_simps)
  have h4: "list_all (\<lambda>l. \<not> prefix (js ''```'') (stripCR l)) [js ''foo'']"
    by (simp add: stripCR_def CR_def js_simps)
  have "escapeHtml (join [NL] (map stripCR [js ''foo''])) = js ''foo''"
    by (simp add: stripCR_def CR_def js_simps escapeHtml_def replaceUnit_def)
  with C6_unclosed_fence_is_emitted [OF h1 h2 h3 h4] h1 h2 h3 h4
  show ?thesis by (simp add: initialState_def js_simps)
qed

text \<open>
  C9. Consecutive list-item lines are buffered and emitted together as one unordered list.
  The item lines \<open>items\<close>, reached outside a code block, emit nothing: they only append
  their formatted texts, in order, to the list buffer. Whatever lines follow, the output
  holds one \<^verbatim>\<open><ul>\<close> element whose items begin with the pending items and these texts.
  When the document ends after them, or the next line is neither an item line nor a fence,
  that element holds exactly those items, one \<^verbatim>\<open><li>\<close> element each, stands right after
  the blocks emitted before, and the blocks of the remaining lines follow it. The two lines
  \<^verbatim>\<open>- a\<close> and \<^verbatim>\<open>- b\<close> give one list with two items, also when a paragraph follows.
\<close>

theorem C9_consecutive_items_form_one_list:
  assumes lines: "split NL markdown = ls @ items @ rest"
    and outside: "\<not> inCode (foldl processLine initialState ls)"
    and some: "items \<noteq> []"
    and all_items: "list_all (\<lambda>l. listMatch (stripCR l) \<noteq> None) items"
  shows "foldl processLine initialState (ls @ items)
       = (foldl processLine initialState ls)
           \<lparr>listBuffer := listBuffer (foldl processLine initialState ls)
              @ map (\<lambda>l. inlineMarkdown (dropWhile isSpace (tl (stripCR l)))) items\<rparr>
     \<and> (\<exists>pre more post.
          markdownToHtml markdown =
            join [NL]
              (html (foldl processLine initialState ls) @ pre
               @ [js ''<ul>''
                  @ concat (map (\<lambda>item. js ''<li>'' @ item @ js ''</li>'')
                              (listBuffer (foldl processLine initialState ls)
                               @ map (\<lambda>l. inlineMarkdown (dropWhile isSpace (tl (stripCR l)))) items
                               @ more))
                  @ js ''</ul>'']
               @ post))
     \<and> ((case rest of
            [] \<Rightarrow> True
          | nxt # _ \<Rightarrow> listMatch (stripCR nxt) = None \<and> \<not> prefix (js ''```'') (stripCR nxt)) \<longrightarrow>
          markdownToHtml markdown =
            join [NL]
              (html (foldl processLine initialState ls)
               @ [js ''<ul>''
                  @ concat (map (\<lambda>item. js ''<li>'' @ item @ js ''</li>'')
                              (listBuffer (foldl processLine initialState ls)
                               @ map (\<lambda>l. inlineMarkdown (dropWhile isSpace (tl (stripCR l)))) items))
                  @ js ''</ul>'']
               @ html (flushCode (flushList (foldl processLine
                    ((foldl processLine initialState ls)\<lparr>html := [], listBuffer := []\<rparr>) rest)))))"
proof -
  define s0 where "s0 = foldl processLine initialState ls"
  define texts where "texts = map (\<lambda>l. inlineMarkdown (dropWhile isSpace (tl (stripCR l)))) items"
  define s1 where "s1 = s0\<lparr>listBuffer := listBuffer s0 @ texts\<rparr>"
  have buffered: "foldl processLine initialState (ls @ items) = s1"
    using foldl_processLine_items [of s0 items] outside all_items
    by (simp add: s0_def texts_def s1_def)
  have pending: "listBuffer s1 \<noteq> []" and out1: "\<not> inCode s1" and h1: "html s1 = html s0"
    and lb1: "listBuffer s1 = listBuffer s0 @ texts"
    using some outside by (simp_all add: s1_def texts_def s0_def)
  have "foldl processLine initialState ((ls @ items) @ rest)
        = foldl processLine (foldl processLine initialState (ls @ items)) rest"
    by (rule foldl_append)
  then have "foldl processLine initialState (ls @ items @ rest) = foldl processLine s1 rest"
    unfolding buffered by (simp only: append_assoc)
  then have render: "markdownToHtml markdown
        = join [NL] (html (flushCode (flushList (foldl processLine s1 rest))))"
    unfolding markdownToHtml_def Let_def lines by (simp only:)
  from pending_list_is_emitted [OF pending, of rest] obtain pre more post where
    "html (flushCode (flushList (foldl processLine s1 rest)))
     = html s1 @ pre @ [listBlock (listBuffer s1 @ more)] @ post"
    by blast
  with render h1 lb1 have "markdownToHtml markdown
        = join [NL] (html s0 @ pre @ [listBlock (listBuffer s0 @ texts @ more)] @ post)"
    by simp
  then have one_list: "\<exists>pre more post. markdownToHtml markdown
        = join [NL] (html s0 @ pre @ [listBlock (listBuffer s0 @ texts @ more)] @ post)"
    by blast
  have exact: "markdownToHtml markdown
        = join [NL] (html s0 @ [listBlock (listBuffer s0 @ texts)]
            @ html (flushCode (flushList (foldl processLine (s0\<lparr>html := [], listBuffer := []\<rparr>) rest))))"
    if nxt: "case rest of [] \<Rightarrow> True
             | nxt # _ \<Rightarrow> listMatch (stripCR nxt) = None \<and> \<not> prefix (js ''```'') (stripCR nxt)"
  proof -
    have flushed: "flushList s1 = s0\<lparr>html := html s0 @ [listBlock (listBuffer s0 @ texts)], listBuffer := []\<rparr>"
      using pending by (simp add: flushList_pending) (simp add: s1_def)
    have "foldl processLine s1 rest = foldl processLine (flushList s1) rest
          \<or> rest = []"
    proof (cases rest)
      case Nil
      then show ?thesis by simp
    next
      case (Cons n r)
      with nxt have "listMatch (stripCR n) = None" "\<not> prefix (js ''```'') (stripCR n)"
        by simp_all
      with out1 have "processLine s1 n = processLine (flushList s1) n"
        by (rule processLine_after_list)
      with Cons show ?thesis by simp
    qed
    then have "flushList (foldl processLine s1 rest) = flushList (foldl processLine (flushList s1) rest)"
      by (auto simp: flushList_idem)
    then have "html (flushCode (flushList (foldl processLine s1 rest)))
        = html (flushCode (flushList (foldl processLine (flushList s1) rest)))"
      by simp
    also have "\<dots> = html (flushList s1)
        @ html (flushCode (flushList (foldl processLine ((flushList s1)\<lparr>html := []\<rparr>) rest)))"
      by (rule html_at_end_prefix)
    also have "html (flushList s1) = html s0 @ [listBlock (listBuffer s0 @ texts)]"
      unfolding flushed by simp
    also have "(flushList s1)\<lparr>html := []\<rparr> = s0\<lparr>html := [], listBuffer := []\<rparr>"
      unfolding flushed by simp
    finally show ?thesis using render by simp
  qed
  from buffered one_list exact show ?thesis
    unfolding s0_def texts_def s1_def listBlock_def by blast
qed

theorem C9_consecutive_items_form_one_list_witness:
  "split NL (js ''- a\<newline>- b'') = [] @ [js ''- a'', js ''- b''] @ []
   \<and> split NL (js ''- a\<newline>- b\<newline>para'') = [] @ [js ''- a'', js ''- b''] @ [js ''para'']
   \<and> \<not> inCode (foldl processLine initialState [])
   \<and> [js ''- a'', js ''- b''] \<noteq> []
   \<and> list_all (\<lambda>l. listMatch (stripCR l) \<noteq> None) [js ''- a'', js ''- b'']
   \<and> listMatch (stripCR (js ''para'')) = None
   \<and> \<not> prefix (js ''```'') (stripCR (js ''para''))
   \<and> markdownToHtml (js ''- a\<newline>- b'') = js ''<ul><li>a</li><li>b</li></ul>''
   \<and> markdownToHtml (js ''- a\<newline>- b\<newline>para'')
       = js ''<ul><li>a</li><li>b</li></ul>\<newline><p>para</p>''"
proof -
  have h1: "split NL (js ''- a\<newline>- b'') = [] @ [js ''- a'', js ''- b''] @ []"
    by (simp add: split_def NL_def js_simps)
  have h1': "split NL (js ''- a\<newline>- b\<newline>para'') = [] @ [js ''- a'', js ''- b''] @ [js ''para'']"
    by (simp add: split_def NL_def js_simps)
  have h2: "\<not> inCode (foldl processLine initialState [])"
    by (simp add: initialState_def)
  have h3: "[js ''- a'', js ''- b''] \<noteq> []"
    by simp
  have h4: "list_all (\<lambda>l. listMatch (stripCR l) \<noteq> None) [js ''- a'', js ''- b'']"
    by (simp add: listMatch_def stripCR_def isSpace_def notLineTerminator_def
        isLineTerminator_def CR_def js_simps)
  have n1: "listMatch (stripCR (js ''para'')) = None"
    by (simp add: listMatch_def stripCR_def CR_def js_simps)
  have n2: "\<not> prefix (js ''```'') (stripCR (js ''para''))"
    by (simp add: stripCR_def CR_def js_simps)
  have e: "map (\<lambda>l. inlineMarkdown (dropWhile isSpace (tl (stripCR l)))) [js ''- a'', js ''- b'']
           = [js ''a'', js ''b'']"
    by (simp add: stripCR_def isSpace_def CR_def js_simps inlineMarkdown_def escapeHtml_def
        replaceUnit_def matchDelimited_def matchCode_def)
  have p: "html (flushCode (flushList (foldl processLine
              ((foldl processLine initialState [])\<lparr>html := [], listBuffer := []\<rparr>) [js ''para''])))
           = [js ''<p>para</p>'']"
    by (simp add: initialState_def processLine_def stripCR_def CR_def headingMatch_def
        listMatch_def flushList_def flushCode_def push_def trim_def isSpace_def
        inlineMarkdown_def escapeHtml_def replaceUnit_def matchDelimited_def matchCode_def js_simps)
  have q: "html (flushCode (flushList (foldl processLine
              ((foldl processLine initialState [])\<lparr>html := [], listBuffer := []\<rparr>) [])))
           = []"
    by (simp add: initialState_def flushList_def flushCode_def)
  from C9_consecutive_items_form_one_list [OF h1 h2 h3 h4]
  have a: "markdownToHtml (js ''- a\<newline>- b'') = js ''<ul><li>a</li><li>b</li></ul>''"
    unfolding e q by (simp add: initialState_def js_simps)
  from C9_consecutive_items_form_one_list [OF h1' h2 h3 h4] n1 n2
  have b: "markdownToHtml (js ''- a\<newline>- b\<newline>para'')
       = js ''<ul><li>a</li><li>b</li></ul>\<newline><p>para</p>''"
    unfolding e p by (simp add: initialState_def NL_def js_simps)
  from h1 h1' h2 h3 h4 n1 n2 a b show ?thesis by (intro conjI)
qed

text \<open>
  C7. For every line, inlineMarkdown escapes the characters \<^verbatim>\<open>&\<close>, \<^verbatim>\<open><\<close> and \<^verbatim>\<open>>\<close>
  first and applies the markup substitutions to the escaped text, so no emitted tag is
  escaped again: the escaped text holds no angle bracket, and the output holds exactly one
  ampersand for each \<^verbatim>\<open>&\<close>, \<^verbatim>\<open><\<close> or \<^verbatim>\<open>>\<close> of the input (the tags add none). The input
  \<^verbatim>\<open><b>**x**</b>\<close> renders to \<^verbatim>\<open>&lt;b&gt;<strong>x</strong>&lt;/b&gt;\<close>.
\<close>

theorem C7_escaping_precedes_markup:
  "inlineMarkdown text =
     replaceCode
       (replaceDelimited (js ''_'') (js ''<em>'') (js ''</em>'')
         (replaceDelimited (js ''*'') (js ''<em>'') (js ''</em>'')
           (replaceDelimited (js ''__'') (js ''<strong>'') (js ''</strong>'')
             (replaceDelimited (js ''**'') (js ''<strong>'') (js ''</strong>'')
               (escapeHtml text)))))
   \<and> 60 \<notin> set (escapeHtml text) \<and> 62 \<notin> set (escapeHtml text)
   \<and> count_list (inlineMarkdown text) 38
       = length (filter (\<lambda>c. c = 38 \<or> c = 60 \<or> c = 62) text)
   \<and> inlineMarkdown (js ''<b>**x**</b>'') = js ''&lt;b&gt;<strong>x</strong>&lt;/b&gt;''"
proof -
  have order: "inlineMarkdown text =
     replaceCode
       (replaceDelimited (js ''_'') (js ''<em>'') (js ''</em>'')
         (replaceDelimited (js ''*'') (js ''<em>'') (js ''</em>'')
           (replaceDelimited (js ''__'') (js ''<strong>'') (js ''</strong>'')
             (replaceDelimited (js ''**'') (js ''<strong>'') (js ''</strong>'')
               (escapeHtml text)))))"
    by (simp add: inlineMarkdown_def Let_def)
  have tags: "count_list (js ''<strong>'') 38 = 0" "count_list (js ''</strong>'') 38 = 0"
    "count_list (js ''<em>'') 38 = 0" "count_list (js ''</em>'') 38 = 0"
    "count_list (js ''<code>'') 38 = 0" "count_list (js ''</code>'') 38 = 0"
    "count_list (js ''**'') 38 = 0" "count_list (js ''__'') 38 = 0"
    "count_list (js ''*'') 38 = 0" "count_list (js ''_'') 38 = 0"
    by (simp_all add: js_simps)
  have "count_list (inlineMarkdown text) 38 = count_list (escapeHtml text) 38"
    unfolding order by (simp add: count_replaceCode count_replaceDelimited tags)
  then have amp: "count_list (inlineMarkdown text) 38
       = length (filter (\<lambda>c. c = 38 \<or> c = 60 \<or> c = 62) text)"
    by (simp add: count_amp_escapeHtml count_as_filter)
  have example: "inlineMarkdown (js ''<b>**x**</b>'') = js ''&lt;b&gt;<strong>x</strong>&lt;/b&gt;''"
    by (simp add: inlineMarkdown_def escapeHtml_def replaceUnit_def matchDelimited_def
        matchCode_def notLineTerminator_def isLineTerminator_def js_simps)
  from order escapeHtml_no_angle amp example show ?thesis by blast
qed

text \<open>
  C2, as the code has it. For every front-matter line with a colon and a key that is not
  empty (and is not \<^verbatim>\<open>__proto__\<close>, which the object does not store), the value is the
  text after the first colon, trimmed, without its first unit if that is a quote character
  and then without its last unit if that is a quote character. The two ends are treated
  apart: the quotes need not match, and one of them alone is removed too.
\<close>

theorem C2_value_quotes_stripped_independently:
  assumes colon: "58 \<in> set line"
    and key: "trim (takeWhile (\<lambda>c. c \<noteq> 58) line) \<noteq> []"
    and proto: "trim (takeWhile (\<lambda>c. c \<noteq> 58) line) \<noteq> js ''__proto__''"
  shows "frontMatterLine acc line =
     (let rawValue = trim (tl (dropWhile (\<lambda>c. c \<noteq> 58) line));
          a = (if rawValue \<noteq> [] \<and> isQuote (hd rawValue) then tl rawValue else rawValue);
          v = (if a \<noteq> [] \<and> isQuote (last a) then butlast a else a)
      in acc(trim (takeWhile (\<lambda>c. c \<noteq> 58) line) \<mapsto> v))"
proof -
  from colon have i: "indexOf 58 line \<noteq> -1"
    by (simp add: indexOf_present)
  have lead: "(case r of [] \<Rightarrow> [] | c # cs \<Rightarrow> if isQuote c then cs else r)
        = (if r \<noteq> [] \<and> isQuote (hd r) then tl r else r)" for r :: jsstring
    by (cases r) simp_all
  show ?thesis
    using i key proto
    by (simp add: frontMatterLine_def Let_def slice_before_index [OF colon]
        slice_after_index [OF colon] setProperty_def stripQuotes_def lead)
qed

theorem C2_value_quotes_stripped_independently_witness:
  "58 \<in> set (js ''title: '' @ [DQUOTE] @ js ''My Book'' @ [DQUOTE])
   \<and> trim (takeWhile (\<lambda>c. c \<noteq> 58) (js ''title: '' @ [DQUOTE] @ js ''My Book'' @ [DQUOTE])) \<noteq> []
   \<and> trim (takeWhile (\<lambda>c. c \<noteq> 58) (js ''title: '' @ [DQUOTE] @ js ''My Book'' @ [DQUOTE]))
       \<noteq> js ''__proto__''
   \<and> frontMatterLine Map.empty (js ''title: '' @ [DQUOTE] @ js ''My Book'' @ [DQUOTE])
       = [js ''title'' \<mapsto> js ''My Book'']"
proof -
  have k: "trim (takeWhile (\<lambda>c. c \<noteq> 58) (js ''title: '' @ [DQUOTE] @ js ''My Book'' @ [DQUOTE]))
           = js ''title''"
    by (simp add: trim_def isSpace_def js_simps DQUOTE_def)
  have h1: "58 \<in> set (js ''title: '' @ [DQUOTE] @ js ''My Book'' @ [DQUOTE])"
    by (simp add: js_simps)
  have h2: "trim (takeWhile (\<lambda>c. c \<noteq> 58) (js ''title: '' @ [DQUOTE] @ js ''My Book'' @ [DQUOTE])) \<noteq> []"
    unfolding k by (simp add: js_simps)
  have h3: "trim (takeWhile (\<lambda>c. c \<noteq> 58) (js ''title: '' @ [DQUOTE] @ js ''My Book'' @ [DQUOTE]))
       \<noteq> js ''__proto__''"
    unfolding k by (simp add: js_simps)
  have v: "trim (tl (dropWhile (\<lambda>c. c \<noteq> 58) (js ''title: '' @ [DQUOTE] @ js ''My Book'' @ [DQUOTE])))
           = [DQUOTE] @ js ''My Book'' @ [DQUOTE]"
    by (simp add: trim_def isSpace_def js_simps DQUOTE_def)
  have "frontMatterLine Map.empty (js ''title: '' @ [DQUOTE] @ js ''My Book'' @ [DQUOTE])
       = [js ''title'' \<mapsto> js ''My Book'']"
    using C2_value_quotes_stripped_independently [OF h1 h2 h3, of Map.empty]
    unfolding k v by (simp add: Let_def isQuote_def DQUOTE_def SQUOTE_def js_simps)
  with h1 h2 h3 show ?thesis by blast
qed

text \<open>
  C2 as stated fails: a value with only a leading quote, one with only a trailing quote and
  one between two different quote characters all lose their quote characters.
\<close>

theorem C2_unmatched_quotes_counterexample:
  "parseFrontMatter_page (js ''title: '' @ [DQUOTE] @ js ''abc'') (js ''title'') = Some (js ''abc'')
   \<and> parseFrontMatter_page (js ''title: abc'' @ [SQUOTE]) (js ''title'') = Some (js ''abc'')
   \<and> parseFrontMatter_list (js ''---\<newline>title: '' @ [SQUOTE] @ js ''abc'' @ [DQUOTE] @ js ''\<newline>---'')
        (js ''title'') = Some (js ''abc'')"
  by (simp add: parseFrontMatter_page_def parseFrontMatter_list_def matchFrontMatter_list_def
      anyUnit_def split_def frontMatterLine_def slice_def sliceFrom_def trim_def isSpace_def
      stripQuotes_def isQuote_def setProperty_def DQUOTE_def SQUOTE_def NL_def js_simps Let_def)

text \<open>
  C3, as the code has it. In the list script the title is derived in this order: when the
  filename without its \<^verbatim>\<open>.md\<close> suffix is a dashed date, a hyphen or an underscore, and a
  rest that is not empty and holds no line terminator, the title is the rest; otherwise,
  when the text after the first underscore is not empty, the title is that text; otherwise
  the title is the filename without the suffix. The review page's script has no date rule:
  the title is the text after the first underscore of the filename without the suffix when
  that text is not empty, and otherwise the filename as given, suffix included. In both, a
  compact date of eight digits \<open>d\<close> is no date: before an underscore and a slug it gives
  the slug, by the underscore rule; before a hyphen it is removed only with everything up
  to the first underscore of the slug, and stays in the title when the slug has none.
\<close>

theorem C3_title_from_filename:
  assumes len: "length d = 8" and digits: "list_all isDigit d"
  shows "deriveTitleFromFilename_list filename =
           (let base = stripMd filename in
            case matchDatedName base of
              Some rest \<Rightarrow> rest
            | None \<Rightarrow>
                if 95 \<in> set base \<and> tl (dropWhile (\<lambda>c. c \<noteq> 95) base) \<noteq> []
                then tl (dropWhile (\<lambda>c. c \<noteq> 95) base) else base)
         \<and> (matchDatedName base = Some rest) =
             (\<exists>dd sep. base = dd @ sep # rest \<and> isDashedDate dd \<and> (sep = 45 \<or> sep = 95)
                \<and> rest \<noteq> [] \<and> list_all notLineTerminator rest)
         \<and> deriveTitleFromFilename_list (d @ [95] @ slug @ js ''.md'')
             = (if slug = [] then d @ [95] else slug)
         \<and> deriveTitleFromFilename_list (d @ [45] @ slug @ js ''.md'')
             = (if 95 \<in> set slug \<and> tl (dropWhile (\<lambda>c. c \<noteq> 95) slug) \<noteq> []
                then tl (dropWhile (\<lambda>c. c \<noteq> 95) slug) else d @ [45] @ slug)
         \<and> deriveTitleFromFilename_page filename =
             (let base = stripMd filename in
              if 95 \<in> set base \<and> tl (dropWhile (\<lambda>c. c \<noteq> 95) base) \<noteq> []
              then tl (dropWhile (\<lambda>c. c \<noteq> 95) base) else filename)
         \<and> deriveTitleFromFilename_page (d @ [95] @ slug @ js ''.md'')
             = (if slug = [] then d @ [95] @ js ''.md'' else slug)
         \<and> deriveTitleFromFilename_page (d @ [45] @ slug @ js ''.md'')
             = (if 95 \<in> set slug \<and> tl (dropWhile (\<lambda>c. c \<noteq> 95) slug) \<noteq> []
                then tl (dropWhile (\<lambda>c. c \<noteq> 95) slug) else d @ [45] @ slug @ js ''.md'')"
proof -
  have general: "deriveTitleFromFilename_list f =
           (let base = stripMd f in
            case matchDatedName base of
              Some rest \<Rightarrow> rest
            | None \<Rightarrow>
                if 95 \<in> set base \<and> tl (dropWhile (\<lambda>c. c \<noteq> 95) base) \<noteq> []
                then tl (dropWhile (\<lambda>c. c \<noteq> 95) base) else base)" for f
    by (simp add: deriveTitleFromFilename_list_def Let_def join_drop_split orElse_def
        split: option.splits)
  have skip: "dropWhile (\<lambda>c. c \<noteq> 95) (d @ ys) = dropWhile (\<lambda>c. c \<noteq> 95) ys" for ys
    using digits_no_underscore [OF digits] by (simp add: dropWhile_append2)
  have no95: "95 \<notin> set d"
    using digits_no_underscore [OF digits] by blast
  have su: "stripMd (d @ [95] @ slug @ js ''.md'') = d @ 95 # slug"
    using stripMd_suffix [of "d @ 95 # slug"] by simp
  then have underscore: "deriveTitleFromFilename_list (d @ [95] @ slug @ js ''.md'')
             = (if slug = [] then d @ [95] else slug)"
    unfolding general
    by (simp add: Let_def compact_date_not_dashed [OF len digits] skip)
  have sh: "stripMd (d @ [45] @ slug @ js ''.md'') = d @ 45 # slug"
    using stripMd_suffix [of "d @ 45 # slug"] by simp
  then have hyphen: "deriveTitleFromFilename_list (d @ [45] @ slug @ js ''.md'')
             = (if 95 \<in> set slug \<and> tl (dropWhile (\<lambda>c. c \<noteq> 95) slug) \<noteq> []
                then tl (dropWhile (\<lambda>c. c \<noteq> 95) slug) else d @ [45] @ slug)"
    unfolding general
    by (simp add: Let_def compact_date_not_dashed [OF len digits] skip no95)
  have page_underscore: "deriveTitleFromFilename_page (d @ [95] @ slug @ js ''.md'')
             = (if slug = [] then d @ [95] @ js ''.md'' else slug)"
    unfolding deriveTitleFromFilename_page_eq su
    by (simp add: Let_def skip)
  have page_hyphen: "deriveTitleFromFilename_page (d @ [45] @ slug @ js ''.md'')
             = (if 95 \<in> set slug \<and> tl (dropWhile (\<lambda>c. c \<noteq> 95) slug) \<noteq> []
                then tl (dropWhile (\<lambda>c. c \<noteq> 95) slug) else d @ [45] @ slug @ js ''.md'')"
    unfolding deriveTitleFromFilename_page_eq sh
    by (simp add: Let_def skip no95)
  from general [of filename] matchDatedName_iff [of base rest] underscore hyphen
    deriveTitleFromFilename_page_eq [of filename] page_underscore page_hyphen
  show ?thesis by (simp only: simp_thms)
qed

theorem C3_title_from_filename_witness:
  "length (js ''20240115'') = 8 \<and> list_all isDigit (js ''20240115'')
   \<and> deriveTitleFromFilename_list (js ''2024-01-15_my-review.md'') = js ''my-review''
   \<and> matchDatedName (js ''2024-01-15_my-review'') = Some (js ''my-review'')
   \<and> deriveTitleFromFilename_list (js ''20240115_my_review.md'') = js ''my_review''
   \<and> deriveTitleFromFilename_list (js ''20240115-slug.md'') = js ''20240115-slug''
   \<and> deriveTitleFromFilename_list (js ''20240115-a_b.md'') = js ''b''
   \<and> deriveTitleFromFilename_page (js ''2024-01-15_my-review.md'') = js ''my-review''
   \<and> deriveTitleFromFilename_page (js ''20240115_my_review.md'') = js ''my_review''
   \<and> deriveTitleFromFilename_page (js ''20240115-slug.md'') = js ''20240115-slug.md''
   \<and> deriveTitleFromFilename_page (js ''20240115-a_b.md'') = js ''b''"
proof -
  have h1: "length (js ''20240115'') = 8" by (simp add: js_simps)
  have h2: "list_all isDigit (js ''20240115'')" by (simp add: js_simps isDigit_def)
  have m: "matchDatedName (js ''2024-01-15_my-review'') = Some (js ''my-review'')"
    by (simp add: matchDatedName_def isDashedDate_def isDigit_def notLineTerminator_def
        isLineTerminator_def js_simps)
  have s: "stripMd (js ''2024-01-15_my-review.md'') = js ''2024-01-15_my-review''"
    by (simp add: stripMd_def js_simps)
  note t = C3_title_from_filename [OF h1 h2, of "js ''2024-01-15_my-review.md''"
      "js ''2024-01-15_my-review''" "js ''my-review''" "js ''my_review''"]
  note u = C3_title_from_filename [OF h1 h2, of "js ''2024-01-15_my-review.md''"
      "js ''2024-01-15_my-review''" "js ''my-review''" "js ''slug''"]
  note w = C3_title_from_filename [OF h1 h2, of "js ''2024-01-15_my-review.md''"
      "js ''2024-01-15_my-review''" "js ''my-review''" "js ''a_b''"]
  have a: "deriveTitleFromFilename_list (js ''2024-01-15_my-review.md'') = js ''my-review''"
    using t unfolding s Let_def m by simp
  have b: "deriveTitleFromFilename_list (js ''20240115_my_review.md'') = js ''my_review''"
    using t by (simp add: js_simps)
  have c: "deriveTitleFromFilename_list (js ''20240115-slug.md'') = js ''20240115-slug''"
    using u by (simp add: js_simps)
  have c': "deriveTitleFromFilename_list (js ''20240115-a_b.md'') = js ''b''"
    using w by (simp add: js_simps)
  have pa: "deriveTitleFromFilename_page (js ''2024-01-15_my-review.md'') = js ''my-review''"
    using t unfolding s Let_def by (simp add: js_simps)
  have pb: "deriveTitleFromFilename_page (js ''20240115_my_review.md'') = js ''my_review''"
    using t by (simp add: js_simps)
  have pc: "deriveTitleFromFilename_page (js ''20240115-slug.md'') = js ''20240115-slug.md''"
    using u by (simp add: js_simps)
  have pc': "deriveTitleFromFilename_page (js ''20240115-a_b.md'') = js ''b''"
    using w by (simp add: js_simps)
  from h1 h2 a m b c c' pa pb pc pc' show ?thesis by (intro conjI)
qed

text \<open>
  C3 as stated fails: in the list script a compact date, a hyphen and a slug give the whole
  name, not the slug; in the page script the same name and a name with a dashed date and a
  hyphen stay whole, and a name without a separator keeps its suffix.
\<close>

theorem C3_compact_date_hyphen_counterexample:
  "deriveTitleFromFilename_list (js ''20240115-slug.md'') = js ''20240115-slug''
   \<and> deriveTitleFromFilename_list (js ''20240115-slug.md'') \<noteq> js ''slug''
   \<and> deriveTitleFromFilename_page (js ''20240115-slug.md'') = js ''20240115-slug.md''
   \<and> deriveTitleFromFilename_page (js ''2024-01-15-my-review.md'') = js ''2024-01-15-my-review.md''
   \<and> deriveTitleFromFilename_page (js ''2024-01-15-my-review.md'') \<noteq> js ''my-review''
   \<and> deriveTitleFromFilename_page (js ''notes.md'') = js ''notes.md''
   \<and> deriveTitleFromFilename_page (js ''notes.md'') \<noteq> js ''notes''"
  by (simp add: deriveTitleFromFilename_list_def deriveTitleFromFilename_page_def stripMd_def
      matchDatedName_def isDashedDate_def isDigit_def split_def orElse_def js_simps)

text \<open>
  C8. For every parseable date value, formatRelativeDate buckets
  \<open>diffDays = (startOfToday - target) div 86400000\<close> by first match: at most 0 gives the
  today phrase (the fixed Korean word), 1 to 6 the day phrase with \<open>diffDays\<close>, 7 to 27 the
  week phrase with \<open>diffDays div 7\<close>, then \<open>diffDays div 30 < 12\<close> the month phrase with
  \<open>diffDays div 30\<close>, otherwise the year phrase with \<open>diffDays div 365\<close>; the phrases of
  the four units are those of the active language, in English "N days ago" and so on.
\<close>

theorem C8_buckets_of_diffDays:
  assumes given: "v \<noteq> []" and parseable: "parseDate e v = Some parsed"
  shows "formatRelativeDate e v =
     (let diffDays = (startOfDay e (now e) - startOfDay e parsed) div 86400000;
          c = TEXT (if prefix (js ''en'') (documentLang e) then En else Ko)
      in if diffDays \<le> 0 then today (TEXT Ko)
         else if 1 \<le> diffDays \<and> diffDays \<le> 6 then day c diffDays
         else if 7 \<le> diffDays \<and> diffDays \<le> 27 then week c (diffDays div 7)
         else if diffDays div 30 < 12 then month c (diffDays div 30)
         else year c (diffDays div 365))
   \<and> day (TEXT En) n = numToString n @ js '' days ago''
   \<and> week (TEXT En) n = numToString n @ js '' weeks ago''
   \<and> month (TEXT En) n = numToString n @ js '' months ago''
   \<and> year (TEXT En) n = numToString n @ js '' years ago''"
proof -
  define diffDays where "diffDays = (startOfDay e (now e) - startOfDay e parsed) div 86400000"
  have weeks: "(diffDays div 7 < 4) = (diffDays \<le> 27)" by arith
  have days: "(diffDays < 7) = (diffDays \<le> 6)" by arith
  have "formatRelativeDate e v =
     (if diffDays \<le> 0 then [50724, 45720]
      else if diffDays < 7 then relative e diffDays Day
      else if diffDays div 7 < 4 then relative e (diffDays div 7) Week
      else if diffDays div 30 < 12 then relative e (diffDays div 30) Month
      else relative e (diffDays div 365) Year)"
    using given parseable by (simp add: formatRelativeDate_def Let_def diffDays_def)
  then have "formatRelativeDate e v =
     (let c = TEXT (if prefix (js ''en'') (documentLang e) then En else Ko)
      in if diffDays \<le> 0 then today (TEXT Ko)
         else if 1 \<le> diffDays \<and> diffDays \<le> 6 then day c diffDays
         else if 7 \<le> diffDays \<and> diffDays \<le> 27 then week c (diffDays div 7)
         else if diffDays div 30 < 12 then month c (diffDays div 30)
         else year c (diffDays div 365))"
    unfolding weeks days by (auto simp: relative_def activeLanguage_eq Let_def)
  then show ?thesis
    unfolding diffDays_def Let_def by simp
qed

theorem C8_buckets_of_diffDays_witness:
  "js ''2024-02-27'' \<noteq> []
   \<and> parseDate \<lparr>documentLang = js ''en'', now = 1709300000000,
                 dateParse = (\<lambda>s. if s = js ''2024-02-27'' then Some 1708992000000 else None),
                 startOfDay = (\<lambda>t. t - t mod 86400000)\<rparr> (js ''2024-02-27'')
       = Some 1708992000000
   \<and> formatRelativeDate \<lparr>documentLang = js ''en'', now = 1709300000000,
                 dateParse = (\<lambda>s. if s = js ''2024-02-27'' then Some 1708992000000 else None),
                 startOfDay = (\<lambda>t. t - t mod 86400000)\<rparr> (js ''2024-02-27'')
       = js ''3 days ago''"
proof -
  define e where "e = \<lparr>documentLang = js ''en'', now = 1709300000000,
                 dateParse = (\<lambda>s. if s = js ''2024-02-27'' then Some (1708992000000::int) else None),
                 startOfDay = (\<lambda>t::int. t - t mod 86400000)\<rparr>"
  have h1: "js ''2024-02-27'' \<noteq> []" by (simp add: js_simps)
  have h2: "parseDate e (js ''2024-02-27'') = Some 1708992000000"
    by (simp add: e_def parseDate_def trim_def isSpace_def replaceUnit_def js_simps)
  have d: "(startOfDay e (now e) - startOfDay e 1708992000000) div 86400000 = 3"
    by (simp add: e_def)
  have l: "prefix (js ''en'') (documentLang e)" by (simp add: e_def js_simps)
  have "formatRelativeDate e (js ''2024-02-27'') = day (TEXT En) 3"
    using C8_buckets_of_diffDays [OF h1 h2, of 3] unfolding Let_def d
    by (simp add: l)
  then have "formatRelativeDate e (js ''2024-02-27'') = js ''3 days ago''"
    by (simp add: numToString_def js_simps)
  with h1 h2 show ?thesis unfolding e_def by blast
qed

text \<open>
  C1 fails on the code. With the page language \<^verbatim>\<open>en\<close> and a date value that parses to
  today's calendar day, formatRelativeDate returns the Korean word for today, not
  \<^verbatim>\<open>Today\<close>: the branch for \<open>diffDays \<le> 0\<close> returns a literal and never reads the
  \<^verbatim>\<open>today\<close> entry of \<^verbatim>\<open>TEXT\<close>.
\<close>

theorem C1_today_phrase_ignores_language:
  "parseDate \<lparr>documentLang = js ''en'', now = 1709300000000,
                 dateParse = (\<lambda>s. if s = js ''2024-03-01'' then Some 1709251200000 else None),
                 startOfDay = (\<lambda>t. t - t mod 86400000)\<rparr> (js ''2024-03-01'') = Some 1709251200000
   \<and> startOfDay \<lparr>documentLang = js ''en'', now = 1709300000000,
                 dateParse = (\<lambda>s. if s = js ''2024-03-01'' then Some 1709251200000 else None),
                 startOfDay = (\<lambda>t. t - t mod 86400000)\<rparr> 1709251200000
       = startOfDay \<lparr>documentLang = js ''en'', now = 1709300000000,
                 dateParse = (\<lambda>s. if s = js ''2024-03-01'' then Some 1709251200000 else None),
                 startOfDay = (\<lambda>t. t - t mod 86400000)\<rparr> 1709300000000
   \<and> activeLanguage \<lparr>documentLang = js ''en'', now = 1709300000000,
                 dateParse = (\<lambda>s. if s = js ''2024-03-01'' then Some 1709251200000 else None),
                 startOfDay = (\<lambda>t. t - t mod 86400000)\<rparr> = En
   \<and> today (TEXT En) = js ''Today''
   \<and> formatRelativeDate \<lparr>documentLang = js ''en'', now = 1709300000000,
                 dateParse = (\<lambda>s. if s = js ''2024-03-01'' then Some 1709251200000 else None),
                 startOfDay = (\<lambda>t. t - t mod 86400000)\<rparr> (js ''2024-03-01'') = [50724, 45720]
   \<and> formatRelativeDate \<lparr>documentLang = js ''en'', now = 1709300000000,
                 dateParse = (\<lambda>s. if s = js ''2024-03-01'' then Some 1709251200000 else None),
                 startOfDay = (\<lambda>t. t - t mod 86400000)\<rparr> (js ''2024-03-01'') \<noteq> js ''Today''"
  by (simp add: formatRelativeDate_def parseDate_def trim_def isSpace_def replaceUnit_def
      activeLanguage_def startsWith_def orElse_def js_simps)

text \<open>
  C4, as the code has it. loadReviews returns the retained records, each once. When the
  date of every retained record parses, they are ordered newest first by parsed time and
  records with equal times keep their input order. An unparseable date makes the comparator
  return \<^verbatim>\<open>NaN\<close>, which the sort counts as equal: when no retained date parses, the
  records keep their input order. No date string is compared with another.
\<close>

theorem C4_newest_first_by_parsed_date:
  "mset (loadReviews e metadata) = mset (List.map_filter (\<lambda>m. m) metadata)
   \<and> (list_all (\<lambda>r. dateParse e (date r) \<noteq> None) (List.map_filter (\<lambda>m. m) metadata) \<longrightarrow>
        sorted_wrt (\<lambda>a b. the (dateParse e (date b)) \<le> the (dateParse e (date a)))
          (loadReviews e metadata)
        \<and> (\<forall>t. filter (\<lambda>r. the (dateParse e (date r)) = t) (loadReviews e metadata)
                = filter (\<lambda>r. the (dateParse e (date r)) = t) (List.map_filter (\<lambda>m. m) metadata)))
   \<and> (list_all (\<lambda>r. dateParse e (date r) = None) (List.map_filter (\<lambda>m. m) metadata) \<longrightarrow>
        loadReviews e metadata = List.map_filter (\<lambda>m. m) metadata)"
proof -
  define retained where "retained = List.map_filter (\<lambda>m. m) metadata"
  define ts :: "review \<Rightarrow> int" where "ts = (\<lambda>r. the (dateParse e (date r)))"
  have perm: "mset (loadReviews e metadata) = mset retained"
    by (simp add: loadReviews_eq mset_sortBy retained_def)
  have newest: "sorted_wrt (\<lambda>a b. ts b \<le> ts a) (loadReviews e metadata)
        \<and> (\<forall>t. filter (\<lambda>r. ts r = t) (loadReviews e metadata) = filter (\<lambda>r. ts r = t) retained)"
    if all: "list_all (\<lambda>r. dateParse e (date r) \<noteq> None) retained"
  proof -
    have cmp: "(sortCompare (compareReviews e) x y > 0) = (- ts y < - ts x)"
      if "x \<in> set retained" "y \<in> set retained" for x y
    proof -
      from that all have "dateParse e (date x) \<noteq> None" "dateParse e (date y) \<noteq> None"
        by (simp_all add: list_all_iff)
      then obtain tx ty where "dateParse e (date x) = Some tx" "dateParse e (date y) = Some ty"
        by blast
      then show ?thesis by (auto simp: sortCompare_def compareReviews_def ts_def)
    qed
    have eq: "loadReviews e metadata = sort_key (\<lambda>r. - ts r) retained"
      unfolding loadReviews_eq retained_def [symmetric]
      by (rule sortBy_as_sort_key) (rule cmp)
    have "sorted (map (\<lambda>r. - ts r) (sort_key (\<lambda>r. - ts r) retained))"
      by (rule sorted_sort_key)
    then have s: "sorted_wrt (\<lambda>a b. ts b \<le> ts a) (loadReviews e metadata)"
      unfolding eq by (simp add: sorted_map)
    have "filter (\<lambda>r. ts r = t) (loadReviews e metadata) = filter (\<lambda>r. ts r = t) retained" for t
      using sort_key_stable [of "\<lambda>r. - ts r" "- t" retained] unfolding eq by simp
    with s show ?thesis by blast
  qed
  have kept: "loadReviews e metadata = retained"
    if none: "list_all (\<lambda>r. dateParse e (date r) = None) retained"
  proof -
    have "sortCompare (compareReviews e) x y \<le> 0" if "x \<in> set retained" "y \<in> set retained" for x y
      using that none by (auto simp: list_all_iff sortCompare_def compareReviews_def)
    then show ?thesis
      unfolding loadReviews_eq retained_def [symmetric] by (rule sortBy_keeps_order)
  qed
  from perm newest kept show ?thesis
    unfolding retained_def ts_def by blast
qed

theorem C4_newest_first_by_parsed_date_witness:
  "list_all (\<lambda>r. dateParse (\<lparr>documentLang = js ''ko'', now = 1709300000000,
        dateParse = (\<lambda>s. if s = js ''2024-01-01'' then Some 1704067200000
                         else if s = js ''2024-02-01'' then Some 1706745600000
                         else if s = js ''2024-03-01'' then Some 1709251200000
                         else None),
        startOfDay = (\<lambda>t. t - t mod 86400000)\<rparr>) (date r) \<noteq> None)
     (List.map_filter (\<lambda>m. m)
       [Some (\<lparr>title = js ''a'', date = js ''2024-01-01'', url = js ''review.html?file=a.md''\<rparr>), None,
      Some (\<lparr>title = js ''b'', date = js ''2024-03-01'', url = js ''review.html?file=b.md''\<rparr>),
      Some (\<lparr>title = js ''c'', date = js ''2024-02-01'', url = js ''review.html?file=c.md''\<rparr>)])
   \<and> sorted_wrt (\<lambda>a b. the (dateParse (\<lparr>documentLang = js ''ko'', now = 1709300000000,
        dateParse = (\<lambda>s. if s = js ''2024-01-01'' then Some 1704067200000
                         else if s = js ''2024-02-01'' then Some 1706745600000
                         else if s = js ''2024-03-01'' then Some 1709251200000
                         else None),
        startOfDay = (\<lambda>t. t - t mod 86400000)\<rparr>) (date b))
                       \<le> the (dateParse (\<lparr>documentLang = js ''ko'', now = 1709300000000,
        dateParse = (\<lambda>s. if s = js ''2024-01-01'' then Some 1704067200000
                         else if s = js ''2024-02-01'' then Some 1706745600000
                         else if s = js ''2024-03-01'' then Some 1709251200000
                         else None),
        startOfDay = (\<lambda>t. t - t mod 86400000)\<rparr>) (date a)))
       (loadReviews (\<lparr>documentLang = js ''ko'', now = 1709300000000,
        dateParse = (\<lambda>s. if s = js ''2024-01-01'' then Some 1704067200000
                         else if s = js ''2024-02-01'' then Some 1706745600000
                         else if s = js ''2024-03-01'' then Some 1709251200000
                         else None),
        startOfDay = (\<lambda>t. t - t mod 86400000)\<rparr>)
         [Some (\<lparr>title = js ''a'', date = js ''2024-01-01'', url = js ''review.html?file=a.md''\<rparr>), None,
      Some (\<lparr>title = js ''b'', date = js ''2024-03-01'', url = js ''review.html?file=b.md''\<rparr>),
      Some (\<lparr>title = js ''c'', date = js ''2024-02-01'', url = js ''review.html?file=c.md''\<rparr>)])
   \<and> loadReviews (\<lparr>documentLang = js ''ko'', now = 1709300000000,
        dateParse = (\<lambda>s. if s = js ''2024-01-01'' then Some 1704067200000
                         else if s = js ''2024-02-01'' then Some 1706745600000
                         else if s = js ''2024-03-01'' then Some 1709251200000
                         else None),
        startOfDay = (\<lambda>t. t - t mod 86400000)\<rparr>)
         [Some (\<lparr>title = js ''a'', date = js ''2024-01-01'', url = js ''review.html?file=a.md''\<rparr>), None,
      Some (\<lparr>title = js ''b'', date = js ''2024-03-01'', url = js ''review.html?file=b.md''\<rparr>),
      Some (\<lparr>title = js ''c'', date = js ''2024-02-01'', url = js ''review.html?file=c.md''\<rparr>)]
       = [\<lparr>title = js ''b'', date = js ''2024-03-01'', url = js ''review.html?file=b.md''\<rparr>,
          \<lparr>title = js ''c'', date = js ''2024-02-01'', url = js ''review.html?file=c.md''\<rparr>,
          \<lparr>title = js ''a'', date = js ''2024-01-01'', url = js ''review.html?file=a.md''\<rparr>]
   \<and> list_all (\<lambda>r. dateParse (\<lparr>documentLang = js ''ko'', now = 1709300000000,
        dateParse = (\<lambda>s. if s = js ''2024-01-01'' then Some 1704067200000
                         else if s = js ''2024-02-01'' then Some 1706745600000
                         else if s = js ''2024-03-01'' then Some 1709251200000
                         else None),
        startOfDay = (\<lambda>t. t - t mod 86400000)\<rparr>) (date r) = None)
       (List.map_filter (\<lambda>m. m)
         [Some (\<lparr>title = js ''x'', date = js ''someday'', url = js ''review.html?file=x.md''\<rparr>),
      Some (\<lparr>title = js ''y'', date = js ''never'', url = js ''review.html?file=y.md''\<rparr>)])
   \<and> loadReviews (\<lparr>documentLang = js ''ko'', now = 1709300000000,
        dateParse = (\<lambda>s. if s = js ''2024-01-01'' then Some 1704067200000
                         else if s = js ''2024-02-01'' then Some 1706745600000
                         else if s = js ''2024-03-01'' then Some 1709251200000
                         else None),
        startOfDay = (\<lambda>t. t - t mod 86400000)\<rparr>)
         [Some (\<lparr>title = js ''x'', date = js ''someday'', url = js ''review.html?file=x.md''\<rparr>),
      Some (\<lparr>title = js ''y'', date = js ''never'', url = js ''review.html?file=y.md''\<rparr>)]
       = [\<lparr>title = js ''x'', date = js ''someday'', url = js ''review.html?file=x.md''\<rparr>,
          \<lparr>title = js ''y'', date = js ''never'', url = js ''review.html?file=y.md''\<rparr>]"
proof -
  let ?e = "\<lparr>documentLang = js ''ko'', now = 1709300000000,
        dateParse = (\<lambda>s. if s = js ''2024-01-01'' then Some 1704067200000
                         else if s = js ''2024-02-01'' then Some 1706745600000
                         else if s = js ''2024-03-01'' then Some 1709251200000
                         else None),
        startOfDay = (\<lambda>t. t - t mod 86400000)\<rparr>"
  let ?md = "[Some (\<lparr>title = js ''a'', date = js ''2024-01-01'', url = js ''review.html?file=a.md''\<rparr>), None,
      Some (\<lparr>title = js ''b'', date = js ''2024-03-01'', url = js ''review.html?file=b.md''\<rparr>),
      Some (\<lparr>title = js ''c'', date = js ''2024-02-01'', url = js ''review.html?file=c.md''\<rparr>)]"
  let ?md2 = "[Some (\<lparr>title = js ''x'', date = js ''someday'', url = js ''review.html?file=x.md''\<rparr>),
      Some (\<lparr>title = js ''y'', date = js ''never'', url = js ''review.html?file=y.md''\<rparr>)]"
  have h1: "list_all (\<lambda>r. dateParse ?e (date r) \<noteq> None) (List.map_filter (\<lambda>m. m) ?md)"
    by (simp add: List.map_filter_simps js_simps)
  have h2: "list_all (\<lambda>r. dateParse ?e (date r) = None) (List.map_filter (\<lambda>m. m) ?md2)"
    by (simp add: List.map_filter_simps js_simps)
  from C4_newest_first_by_parsed_date [of ?e ?md] h1
  have s: "sorted_wrt (\<lambda>a b. the (dateParse ?e (date b)) \<le> the (dateParse ?e (date a)))
            (loadReviews ?e ?md)"
    by blast
  have v: "loadReviews ?e ?md = [\<lparr>title = js ''b'', date = js ''2024-03-01'', url = js ''review.html?file=b.md''\<rparr>,
          \<lparr>title = js ''c'', date = js ''2024-02-01'', url = js ''review.html?file=c.md''\<rparr>,
          \<lparr>title = js ''a'', date = js ''2024-01-01'', url = js ''review.html?file=a.md''\<rparr>]"
    by (simp add: loadReviews_def sortBy_def sortCompare_def compareReviews_def
        List.map_filter_simps js_simps)
  from C4_newest_first_by_parsed_date [of ?e ?md2] h2
  have "loadReviews ?e ?md2 = List.map_filter (\<lambda>m. m) ?md2"
    by blast
  then have k: "loadReviews ?e ?md2 = [\<lparr>title = js ''x'', date = js ''someday'', url = js ''review.html?file=x.md''\<rparr>,
          \<lparr>title = js ''y'', date = js ''never'', url = js ''review.html?file=y.md''\<rparr>]"
    by (simp add: List.map_filter_simps)
  from h1 s v h2 k show ?thesis by (intro conjI)
qed

text \<open>
  C4 as stated fails: two records with unparseable dates come out in their input order,
  whichever of the two date strings is the greater.
\<close>

theorem C4_unparseable_dates_counterexample:
  "loadReviews \<lparr>documentLang = js ''ko'', now = 1709300000000, dateParse = (\<lambda>s. None),
        startOfDay = (\<lambda>t. t - t mod 86400000)\<rparr>
     [Some (\<lparr>title = js ''x'', date = js ''aaa'', url = js ''review.html?file=x.md''\<rparr>),
      Some (\<lparr>title = js ''y'', date = js ''bbb'', url = js ''review.html?file=y.md''\<rparr>)]
   = [\<lparr>title = js ''x'', date = js ''aaa'', url = js ''review.html?file=x.md''\<rparr>,
      \<lparr>title = js ''y'', date = js ''bbb'', url = js ''review.html?file=y.md''\<rparr>]
   \<and> loadReviews \<lparr>documentLang = js ''ko'', now = 1709300000000, dateParse = (\<lambda>s. None),
        startOfDay = (\<lambda>t. t - t mod 86400000)\<rparr>
     [Some (\<lparr>title = js ''y'', date = js ''bbb'', url = js ''review.html?file=y.md''\<rparr>),
      Some (\<lparr>title = js ''x'', date = js ''aaa'', url = js ''review.html?file=x.md''\<rparr>)]
   = [\<lparr>title = js ''y'', date = js ''bbb'', url = js ''review.html?file=y.md''\<rparr>,
      \<lparr>title = js ''x'', date = js ''aaa'', url = js ''review.html?file=x.md''\<rparr>]"
  by (simp add: loadReviews_def sortBy_def sortCompare_def compareReviews_def
      List.map_filter_simps)

end
